theory Spec2Isabelle
  imports Main "HOL-Library.Char_ord" "HOL-Library.List_Lexorder" "HOL-Library.Multiset"
begin

text \<open>
  The discovery and batching pipeline of the webtoon downloader: \<open>episodeNo\<close>,
  \<open>createTitle\<close>, \<open>getOzPageImgLinks\<close>, \<open>getAllEpisodeLinks\<close>, \<open>getEpisodeBatches\<close>,
  \<open>saveBatch\<close> and \<open>GetWebtoon\<close>, as functions of HOL.  The repository holds the program
  in two versions; the functions here are those of the later one (with the flags
  \<^verbatim>\<open>-E\<close>, \<^verbatim>\<open>-W\<close> and \<^verbatim>\<open>-file\<close>, the struct \<open>EpisodeInfo\<close> and the deferred
  \<^verbatim>\<open>recover()\<close>).  \<open>episodeNo\<close>, \<open>createTitle\<close>, \<open>getOzPageImgLinks\<close> and the batch loop
  read the same in both.  Logging and \<^verbatim>\<open>time.Sleep\<close> are left out.
\<close>

section \<open>Outcomes of Go code\<close>

text \<open>
  A Go call either returns, panics (the panic unwinds the goroutine's stack and a deferred
  \<^verbatim>\<open>recover()\<close> can stop it), or ends the whole process with \<^verbatim>\<open>os.Exit\<close>
  (no deferred function runs, every goroutine dies).  Functions returning \<^verbatim>\<open>(T, error)\<close>
  return a sum, \<open>Inl\<close> the error.
\<close>

datatype 'a go = Return 'a | Panicked string | Exited int

section \<open>Strings\<close>

text \<open>Go strings are byte sequences; \<open>string\<close> is a list of 8-bit characters.\<close>

definition isDigit :: "char \<Rightarrow> bool" where
  "isDigit c = (48 \<le> (of_char c :: nat) \<and> (of_char c :: nat) \<le> 57)"

definition hasPrefix :: "string \<Rightarrow> string \<Rightarrow> bool" where
  "hasPrefix s p = (take (length p) s = p)"

text \<open>\<^verbatim>\<open>strings.Contains(s, sub)\<close>.\<close>

fun Contains :: "string \<Rightarrow> string \<Rightarrow> bool" where
  "Contains [] sub = (sub = [])"
| "Contains (c # cs) sub = (hasPrefix (c # cs) sub \<or> Contains cs sub)"

section \<open>episodeNo\<close>

text \<open>
  The leftmost match of a regular expression \<^verbatim>\<open>lit([0-9]+)\<close>, \<open>lit\<close> a literal
  string and the digit run taken greedily: the result is the capture group, \<open>None\<close> when
  nothing matches.
\<close>

fun findDigitsAfter :: "string \<Rightarrow> string \<Rightarrow> string option" where
  "findDigitsAfter lit [] = None"
| "findDigitsAfter lit (c # cs) =
     (if hasPrefix (c # cs) lit \<and> takeWhile isDigit (drop (length lit) (c # cs)) \<noteq> []
      then Some (takeWhile isDigit (drop (length lit) (c # cs)))
      else findDigitsAfter lit cs)"

text \<open>
  \<^verbatim>\<open>regexp.MustCompile("episode_no=([0-9]+)").FindStringSubmatch(s)\<close>; \<open>None\<close> is
  the source's \<^verbatim>\<open>len(matches) != 2\<close>.
\<close>

definition findEpisodeNo :: "string \<Rightarrow> string option" where
  "findEpisodeNo s = findDigitsAfter ''episode_no='' s"

definition digitsVal :: "string \<Rightarrow> int" where
  "digitsVal ds = foldl (\<lambda>a c. 10 * a + (int (of_char c) - 48)) 0 ds"

text \<open>Go's \<^verbatim>\<open>int\<close> on a 64-bit platform.\<close>

definition maxInt :: int where
  "maxInt = 2 ^ 63 - 1"

text \<open>
  \<^verbatim>\<open>strconv.Atoi\<close> on a non-empty run of ASCII digits (all that \<open>episodeNo\<close> passes
  to it): the decimal value, or a range error (\<open>None\<close>) when it does not fit an \<^verbatim>\<open>int\<close>.
\<close>

definition Atoi :: "string \<Rightarrow> int option" where
  "Atoi ds = (if digitsVal ds \<le> maxInt then Some (digitsVal ds) else None)"

definition episodeNo :: "string \<Rightarrow> int" where
  "episodeNo episodeLink =
     (case findEpisodeNo episodeLink of
        None \<Rightarrow> 0
      | Some m \<Rightarrow> (case Atoi m of None \<Rightarrow> 0 | Some n \<Rightarrow> n))"

text \<open>The URL contains \<^verbatim>\<open>episode_no=\<close> followed by at least one digit.\<close>

definition hasPattern :: "string \<Rightarrow> bool" where
  "hasPattern s = (\<exists>a d b. s = a @ ''episode_no='' @ d # b \<and> isDigit d)"

section \<open>createTitle\<close>

text \<open>
  The loop appends every title followed by \<^verbatim>\<open>"_"\<close>; \<^verbatim>\<open>title[:last]\<close> with
  \<^verbatim>\<open>last = len(title)-1\<close> panics when the title is empty (\<open>last = -1\<close>).
\<close>

definition createTitle :: "string list \<Rightarrow> string go" where
  "createTitle episodetitles =
     (let title = foldl (\<lambda>t episodeTitle. t @ episodeTitle @ ''_'') [] episodetitles;
          last = int (length title) - 1
      in if last < 0 then Panicked ''slice bounds out of range''
         else Return (take (nat last) title))"

text \<open>The titles joined with a separator, as the specification words it.\<close>

fun joinWith :: "string \<Rightarrow> string list \<Rightarrow> string" where
  "joinWith sep [] = []"
| "joinWith sep [x] = x"
| "joinWith sep (x # y # ys) = x @ sep @ joinWith sep (y # ys)"

section \<open>More string functions\<close>

text \<open>
  \<^verbatim>\<open>strings.ReplaceAll(s, old, new)\<close> for a non-empty \<open>old\<close> (every call passes a
  literal): the non-overlapping occurrences, leftmost first.
\<close>

function ReplaceAll :: "string \<Rightarrow> string \<Rightarrow> string \<Rightarrow> string" where
  "ReplaceAll [] old new = []"
| "ReplaceAll (c # cs) old new =
     (if old \<noteq> [] \<and> hasPrefix (c # cs) old
      then new @ ReplaceAll (drop (length old) (c # cs)) old new
      else c # ReplaceAll cs old new)"
  by pat_completeness auto
termination
  by (relation "measure (\<lambda>(s, old, new). length s)") (auto simp: neq_Nil_conv)

text \<open>\<^verbatim>\<open>strings.Split(s, sep)\<close> for a separator of one byte.\<close>

fun Split :: "string \<Rightarrow> char \<Rightarrow> string list" where
  "Split [] sep = [[]]"
| "Split (c # cs) sep =
     (if c = sep then [] # Split cs sep
      else (case Split cs sep of [] \<Rightarrow> [[c]] | p # ps \<Rightarrow> (c # p) # ps))"

text \<open>
  \<^verbatim>\<open>re.ReplaceAllString(s, "")\<close> for a regular expression \<^verbatim>\<open>lit[0-9]+\<close>: every match,
  leftmost first and greedy, is cut out.
\<close>

function removeDigitsAfter :: "string \<Rightarrow> string \<Rightarrow> string" where
  "removeDigitsAfter lit [] = []"
| "removeDigitsAfter lit (c # cs) =
     (if hasPrefix (c # cs) lit \<and> takeWhile isDigit (drop (length lit) (c # cs)) \<noteq> []
      then removeDigitsAfter lit (dropWhile isDigit (drop (length lit) (c # cs)))
      else c # removeDigitsAfter lit cs)"
  by pat_completeness auto
termination
proof (relation "measure (\<lambda>(lit, s). length s)")
  show "wf (measure (\<lambda>(lit, s). length s))" by simp
next
  fix lit :: string and c cs
  assume "hasPrefix (c # cs) lit \<and> takeWhile isDigit (drop (length lit) (c # cs)) \<noteq> []"
  then have ne: "takeWhile isDigit (drop (length lit) (c # cs)) \<noteq> []" by simp
  have "length (takeWhile isDigit (drop (length lit) (c # cs))) +
        length (dropWhile isDigit (drop (length lit) (c # cs))) =
        length (drop (length lit) (c # cs))"
    by (metis length_append takeWhile_dropWhile_id)
  moreover have "0 < length (takeWhile isDigit (drop (length lit) (c # cs)))"
    using ne by simp
  moreover have "length (drop (length lit) (c # cs)) \<le> length (c # cs)"
    by simp
  ultimately have "length (dropWhile isDigit (drop (length lit) (c # cs))) < length (c # cs)"
    by linarith
  then show "((lit, dropWhile isDigit (drop (length lit) (c # cs))), (lit, c # cs))
        \<in> measure (\<lambda>(lit, s). length s)"
    by simp
next
  fix lit :: string and c cs
  assume "\<not> (hasPrefix (c # cs) lit \<and> takeWhile isDigit (drop (length lit) (c # cs)) \<noteq> [])"
  show "((lit, cs), (lit, c # cs)) \<in> measure (\<lambda>(lit, s). length s)"
    by simp
qed

text \<open>\<^verbatim>\<open>fmt.Sprintf("%d", n)\<close> for a number that is not negative.\<close>

definition digitChar :: "nat \<Rightarrow> char" where
  "digitChar n = ''0123456789'' ! n"

function showNat :: "nat \<Rightarrow> string" where
  "showNat n = (if n < 10 then [digitChar n] else showNat (n div 10) @ [digitChar (n mod 10)])"
  by pat_completeness auto
termination
  by (relation "measure id") auto

declare showNat.simps [simp del]

section \<open>Data\<close>

record EpisodeInfo =
  title :: string
  url :: string

record EpisodeBatch =
  imgLinks :: "string list"
  title :: string
  minEp :: int
  maxEp :: int

record Opts =
  url :: string
  minEp :: int
  maxEp :: int
  epsPerFile :: int
  format :: string

text \<open>The flag variables of the package that the modelled functions read.\<close>

record Flags =
  FileVerify :: bool
  confOverride :: bool

datatype error = NoEpisodeFound | InvalidURI

section \<open>The site and the local machine\<close>

text \<open>
  What \<^verbatim>\<open>soup.Get\<close>, \<^verbatim>\<open>soup.HTMLParse\<close> and the two regular expressions of
  \<open>getOzPageImgLinks\<close> give for an episode page: the \<^verbatim>\<open>data-url\<close> attribute of every
  \<^verbatim>\<open>img\<close> inside \<^verbatim>\<open>div.viewer_lst\<close> (\<open>None\<close> where the attribute is missing), and the
  capture groups of the \<^verbatim>\<open>documentURL\<close> and \<^verbatim>\<open>stillcut\<close> patterns (\<open>None\<close>: no match).
\<close>

record EpisodePage =
  viewerImgs :: "string option list"
  documentURL :: "string option"
  stillcut :: "string option"

text \<open>
  The reply to the request for the manifest: a transport error, a body that does not
  unmarshal into \<open>MotiontoonJson\<close>, or the members of \<^verbatim>\<open>assets.image\<close> in the order of
  the JSON text.
\<close>

datatype ManifestReply = ManifestFetchError | ManifestBadJson | Manifest "(string \<times> string) list"

text \<open>The document a \<open>ComicFile\<close> builds: its pages in the order they were added.\<close>

datatype ComicFile = PDFComicFile "string list" | CBZComicFile "string list"

text \<open>
  Everything outside the program.  \<open>listingAnchors\<close>: the anchors inside
  \<^verbatim>\<open>div.detail_lst\<close> of a listing page, each with its \<^verbatim>\<open>href\<close> and the text of its
  subject span, \<open>None\<close> when \<^verbatim>\<open>soup.Get\<close> fails.  \<open>imageBytes\<close>: the body of an image
  request, \<open>None\<close> when the request or the read fails.  \<open>decodable\<close>: gopdf and
  \<^verbatim>\<open>image.DecodeConfig\<close> accept the bytes.  \<open>writable\<close>: a file can be written at the
  path.  \<open>validURI\<close>: \<^verbatim>\<open>url.ParseRequestURI\<close> accepts the string.  \<open>dbExecOk\<close>: the
  database executes the statement.  \<open>mapRange\<close>: the order in which \<^verbatim>\<open>range\<close> visits
  the keys of a map, given in insertion order (Go leaves the order open).  \<open>sortSlice\<close>:
  \<^verbatim>\<open>sort.Slice\<close> (not stable).
\<close>

record World =
  listingAnchors :: "string \<Rightarrow> (string \<times> string) list option"
  episodePage :: "string \<Rightarrow> EpisodePage option"
  manifest :: "string \<Rightarrow> ManifestReply"
  imageBytes :: "string \<Rightarrow> string option"
  decodable :: "string \<Rightarrow> bool"
  writable :: "string \<Rightarrow> bool"
  validURI :: "string \<Rightarrow> bool"
  dbExecOk :: bool
  mapRange :: "EpisodeInfo list \<Rightarrow> EpisodeInfo list"
  sortSlice :: "(EpisodeInfo \<Rightarrow> EpisodeInfo \<Rightarrow> bool) \<Rightarrow> EpisodeInfo list \<Rightarrow> EpisodeInfo list"

text \<open>
  What the Go runtime and library promise of the last two: \<^verbatim>\<open>range\<close> visits every key
  once, and \<^verbatim>\<open>sort.Slice\<close> with a comparison of keys permutes the slice into ascending
  key order.
\<close>

definition runtime_ok :: "World \<Rightarrow> bool" where
  "runtime_ok w =
     ((\<forall>xs. mset (mapRange w xs) = mset xs) \<and>
      (\<forall>(key :: EpisodeInfo \<Rightarrow> int) xs.
         mset (sortSlice w (\<lambda>a b. key a < key b) xs) = mset xs \<and>
         sorted (map key (sortSlice w (\<lambda>a b. key a < key b) xs))))"

text \<open>A row of the table \<^verbatim>\<open>webtoon\<close>; its primary key is \<open>(titre, lang)\<close>.\<close>

record Row =
  url :: string
  last_chapter :: int
  epsPerFile :: int
  format :: string

text \<open>
  The state the program changes: the files under \<^verbatim>\<open>webtoon/\<close> by path, the table, and
  two logs kept for the proofs: the image links requested and the number of calls on
  \<open>ComicFile\<close> values (\<open>getComicFile\<close>, \<open>addImage\<close>, \<open>save\<close>).
\<close>

record Machine =
  files :: "string \<rightharpoonup> ComicFile"
  webtoon :: "string \<times> string \<rightharpoonup> Row"
  fetched :: "string list"
  comicCalls :: nat

section \<open>Image links of an episode\<close>

text \<open>
  \<^verbatim>\<open>json.Unmarshal\<close> into a Go map: of two members with one key the later one stays.
  A missing key reads as the empty string.
\<close>

definition unmarshalImage :: "(string \<times> string) list \<Rightarrow> (string \<rightharpoonup> string)" where
  "unmarshalImage members = map_of (rev members)"

definition mapIndex :: "(string \<rightharpoonup> string) \<Rightarrow> string \<Rightarrow> string" where
  "mapIndex m k = (case m k of None \<Rightarrow> [] | Some v \<Rightarrow> v)"

text \<open>
  The keys of that map as \<^verbatim>\<open>range\<close> hands them out: each key once, here in the order of
  first occurrence.  \<^verbatim>\<open>sort.Strings\<close> follows at once, and the keys are distinct, so the
  order chosen here does not reach the result.
\<close>

definition mapKeys :: "(string \<times> string) list \<Rightarrow> string list" where
  "mapKeys members = remdups (map fst members)"

definition getOzPageImgLinks :: "World \<Rightarrow> EpisodePage \<Rightarrow> string list go" where
  "getOzPageImgLinks w doc =
     (case documentURL doc of
        None \<Rightarrow> Exited 1
      | Some docURL \<Rightarrow>
          (case manifest w docURL of
             ManifestFetchError \<Rightarrow> Exited 1
           | ManifestBadJson \<Rightarrow> Exited 1
           | Manifest members \<Rightarrow>
               (let sortedKeys = sort (mapKeys members) in
                case stillcut doc of
                  None \<Rightarrow> Exited 1
                | Some pathRule \<Rightarrow>
                    Return (map (\<lambda>k. ReplaceAll pathRule ''{=filename}''
                                        (mapIndex (unmarshalImage members) k)) sortedKeys))))"

definition getImgLinksForEpisode :: "World \<Rightarrow> string \<Rightarrow> string list go" where
  "getImgLinksForEpisode w u =
     (case episodePage w u of
        None \<Rightarrow> Exited 1
      | Some doc \<Rightarrow>
          if viewerImgs doc = [] then getOzPageImgLinks w doc
          else Return (concat (map (\<lambda>a. case a of None \<Rightarrow> [] | Some dataURL \<Rightarrow> [dataURL])
                                   (viewerImgs doc))))"

text \<open>The loop of \<open>getImgLinksForEpisodes\<close>, \<open>allImgLinks\<close> its accumulator.\<close>

fun imgLinksLoop :: "World \<Rightarrow> string list \<Rightarrow> string list \<Rightarrow> string list go" where
  "imgLinksLoop w [] allImgLinks = Return allImgLinks"
| "imgLinksLoop w (episodeLink # rest) allImgLinks =
     (case getImgLinksForEpisode w episodeLink of
        Return imgs \<Rightarrow> imgLinksLoop w rest (allImgLinks @ imgs)
      | Panicked m \<Rightarrow> Panicked m
      | Exited c \<Rightarrow> Exited c)"

text \<open>The second parameter of the source, \<open>actualMaxEp\<close>, is only logged.\<close>

definition getImgLinksForEpisodes :: "World \<Rightarrow> string list \<Rightarrow> string list go" where
  "getImgLinksForEpisodes w episodeLinks = imgLinksLoop w episodeLinks []"

section \<open>The catalog crawler\<close>

definition getEpisodeLinksForPage :: "World \<Rightarrow> string \<Rightarrow> EpisodeInfo list option" where
  "getEpisodeLinksForPage w u =
     (case listingAnchors w u of
        None \<Rightarrow> None
      | Some episodeURLs \<Rightarrow>
          Some (map (\<lambda>(href, subj). \<lparr>EpisodeInfo.title = subj, url = href\<rparr>)
                    (filter (\<lambda>(href, subj). Contains href ''/viewer'') episodeURLs)))"

text \<open>
  The inner loop over the entries of one page.  \<open>episodeSet\<close>, a Go map used as a set, is
  the list of its keys in insertion order; the key is the whole \<open>EpisodeInfo\<close>, so an
  entry is found again only if title and URL both agree.  The result is \<open>foundLastPage\<close>
  and the set.
\<close>

fun scanPage :: "EpisodeInfo list \<Rightarrow> EpisodeInfo list \<Rightarrow> bool \<times> EpisodeInfo list" where
  "scanPage [] episodeSet = (False, episodeSet)"
| "scanPage (episode # rest) episodeSet =
     (if episode \<in> set episodeSet then (True, episodeSet)
      else scanPage rest (episodeSet @ [episode]))"

text \<open>
  The outer loop, which may run forever: every round takes one unit of fuel, and \<open>None\<close>
  says that the fuel ran out before the loop ended.  \<open>nextPageUrl\<close> is the assignment to
  \<^verbatim>\<open>url\<close> that opens a round; \<open>scanPage\<close> gives \<open>foundLastPage\<close> and the set.
\<close>

definition nextPageUrl :: "string \<Rightarrow> nat \<Rightarrow> string" where
  "nextPageUrl u page = removeDigitsAfter ''&page='' u @ ''&page='' @ showNat page"

fun crawlPages :: "nat \<Rightarrow> World \<Rightarrow> string \<Rightarrow> nat \<Rightarrow> EpisodeInfo list \<Rightarrow> EpisodeInfo list option" where
  "crawlPages 0 w u page episodeSet = None"
| "crawlPages (Suc fuel) w u page episodeSet =
     (case getEpisodeLinksForPage w (nextPageUrl u page) of
        None \<Rightarrow> Some episodeSet
      | Some episodes \<Rightarrow>
          if fst (scanPage episodes episodeSet) then Some (snd (scanPage episodes episodeSet))
          else crawlPages fuel w (nextPageUrl u page) (page + 1)
                 (snd (scanPage episodes episodeSet)))"

definition getAllEpisodeLinks :: "nat \<Rightarrow> World \<Rightarrow> string \<Rightarrow> EpisodeInfo list option" where
  "getAllEpisodeLinks fuel w u =
     (case crawlPages fuel w u 1 [] of
        None \<Rightarrow> None
      | Some episodeSet \<Rightarrow>
          Some (sortSlice w (\<lambda>a b. episodeNo (EpisodeInfo.url a) < episodeNo (EpisodeInfo.url b))
                  (mapRange w episodeSet)))"

text \<open>The URL that the crawler requests in its \<open>n\<close>-th round (\<open>n \<ge> 1\<close>).\<close>

fun pageUrl :: "string \<Rightarrow> nat \<Rightarrow> string" where
  "pageUrl u 0 = u"
| "pageUrl u (Suc n) = nextPageUrl (pageUrl u n) (Suc n)"

text \<open>The entries of the page requested in round \<open>i\<close>; none when the request fails.\<close>

definition pageEntries :: "World \<Rightarrow> string \<Rightarrow> nat \<Rightarrow> EpisodeInfo list" where
  "pageEntries w u i =
     (case getEpisodeLinksForPage w (pageUrl u i) of None \<Rightarrow> [] | Some es \<Rightarrow> es)"



section \<open>The batch planner\<close>

text \<open>Go's \<^verbatim>\<open>s[lo:hi]\<close> where \<open>lo \<le> hi \<le> len(s)\<close>, as at both uses below.\<close>

definition slice :: "'a list \<Rightarrow> nat \<Rightarrow> nat \<Rightarrow> 'a list" where
  "slice xs lo hi = take (hi - lo) (drop lo xs)"

text \<open>
  The loop \<^verbatim>\<open>for start := 0; start < len(desiredEpisodeLinks); start += epsPerBatch\<close>.
  With \<open>epsPerBatch = 0\<close> the first round slices nothing and \<open>createTitle\<close> panics.
\<close>

function batchLoop ::
  "World \<Rightarrow> string list \<Rightarrow> string list \<Rightarrow> nat \<Rightarrow> nat \<Rightarrow> EpisodeBatch list \<Rightarrow> EpisodeBatch list go" where
  "batchLoop w desiredEpisodeLinks desiredEpisodeTitles epsPerBatch start episodeBatches =
     (if start < length desiredEpisodeLinks then
        (case getImgLinksForEpisodes w
                (slice desiredEpisodeLinks start
                   (if start + epsPerBatch > length desiredEpisodeLinks
                    then length desiredEpisodeLinks else start + epsPerBatch)) of
           Return imgs \<Rightarrow>
             (case createTitle
                     (slice desiredEpisodeTitles start
                        (if start + epsPerBatch > length desiredEpisodeLinks
                         then length desiredEpisodeLinks else start + epsPerBatch)) of
                Return t \<Rightarrow>
                  batchLoop w desiredEpisodeLinks desiredEpisodeTitles epsPerBatch
                    (start + epsPerBatch)
                    (episodeBatches @
                     [\<lparr>imgLinks = imgs, title = t,
                       minEp = episodeNo (desiredEpisodeLinks ! start),
                       maxEp = episodeNo (desiredEpisodeLinks !
                         ((if start + epsPerBatch > length desiredEpisodeLinks
                           then length desiredEpisodeLinks else start + epsPerBatch) - 1))\<rparr>])
              | Panicked m \<Rightarrow> Panicked m
              | Exited c \<Rightarrow> Exited c)
         | Panicked m \<Rightarrow> Panicked m
         | Exited c \<Rightarrow> Exited c)
      else Return episodeBatches)"
  by pat_completeness auto
termination
proof (relation "measure (\<lambda>(w, links, titles, k, start, bs). length links - start)")
  show "wf (measure (\<lambda>(w, links :: string list, titles :: string list, k :: nat, start :: nat,
      bs :: EpisodeBatch list). length links - start))"
    by simp
next
  fix w :: World and links titles :: "string list" and k start :: nat
    and bs :: "EpisodeBatch list" and imgs t
  assume lt: "start < length links"
    and ret: "createTitle (slice titles start
           (if length links < start + k then length links else start + k)) = Return t"
  have "k \<noteq> 0"
  proof
    assume "k = 0"
    with lt have "slice titles start
           (if length links < start + k then length links else start + k) = []"
      by (simp add: slice_def)
    with ret show False
      by (simp add: createTitle_def)
  qed
  with lt show "((w, links, titles, k, start + k,
                  bs @ [\<lparr>imgLinks = imgs, title = t, minEp = episodeNo (links ! start),
                         maxEp = episodeNo (links !
                           ((if length links < start + k then length links else start + k) - 1))\<rparr>]),
                 (w, links, titles, k, start, bs))
        \<in> measure (\<lambda>(w, links, titles, k, start, bs). length links - start)"
    by simp
qed

declare batchLoop.simps [simp del]

text \<open>
  The branch of \<open>getEpisodeBatches\<close> for a listing URL, from the crawler's result on.
  \<open>actualMinEp\<close> and \<open>actualMaxEp\<close> are only logged.
\<close>

definition planBatches ::
  "World \<Rightarrow> EpisodeInfo list \<Rightarrow> int \<Rightarrow> int \<Rightarrow> nat \<Rightarrow> (error + EpisodeBatch list) go" where
  "planBatches w allEpisodeLinks minEp' maxEp' epsPerBatch =
     (let desired = filter (\<lambda>episodeLink. episodeNo (EpisodeInfo.url episodeLink) \<ge> minEp' \<and>
                                          episodeNo (EpisodeInfo.url episodeLink) \<le> maxEp')
                      allEpisodeLinks;
          desiredEpisodeLinks = map EpisodeInfo.url desired;
          desiredEpisodeTitles = map EpisodeInfo.title desired
      in if length desiredEpisodeLinks = 0 then Return (Inl NoEpisodeFound)
         else (case batchLoop w desiredEpisodeLinks desiredEpisodeTitles epsPerBatch 0 [] of
                 Return episodeBatches \<Rightarrow> Return (Inr episodeBatches)
               | Panicked m \<Rightarrow> Panicked m
               | Exited c \<Rightarrow> Exited c))"

text \<open>
  \<open>getEpisodeBatches\<close>.  \<open>None\<close>: the crawler did not end within the fuel.  The batch
  size is an \<^verbatim>\<open>int\<close> that \<open>parseOpts\<close> keeps at 1 or more.
\<close>

definition getEpisodeBatches ::
  "nat \<Rightarrow> World \<Rightarrow> string \<Rightarrow> int \<Rightarrow> int \<Rightarrow> nat \<Rightarrow> (error + EpisodeBatch list) go option" where
  "getEpisodeBatches fuel w u minEp' maxEp' epsPerBatch =
     (if Contains u ''/viewer'' then
        (case getImgLinksForEpisode w u of
           Return imgs \<Rightarrow>
             Some (Return (Inr [\<lparr>imgLinks = imgs, title = [], minEp = episodeNo u,
                                 maxEp = episodeNo u\<rparr>]))
         | Panicked m \<Rightarrow> Some (Panicked m)
         | Exited c \<Rightarrow> Some (Exited c))
      else
        (case getAllEpisodeLinks fuel w u of
           None \<Rightarrow> None
         | Some allEpisodeLinks \<Rightarrow> Some (planBatches w allEpisodeLinks minEp' maxEp' epsPerBatch)))"

text \<open>The \<open>i\<close>-th chunk of size \<open>k\<close> of a list, counted from 0.\<close>

definition chunkOf :: "nat \<Rightarrow> 'a list \<Rightarrow> nat \<Rightarrow> 'a list" where
  "chunkOf k xs i = take k (drop (i * k) xs)"

section \<open>The executor\<close>

definition getComicFile :: "string \<Rightarrow> ComicFile" where
  "getComicFile fmt = (if fmt = ''cbz'' then CBZComicFile [] else PDFComicFile [])"

text \<open>\<open>addImage\<close>: the PDF builder fails on bytes it cannot decode; \<open>Inl\<close> is the error.\<close>

fun addImage :: "World \<Rightarrow> ComicFile \<Rightarrow> string \<Rightarrow> string + ComicFile" where
  "addImage w (PDFComicFile pages) img =
     (if decodable w img then Inr (PDFComicFile (pages @ [img])) else Inl ''image: unknown format'')"
| "addImage w (CBZComicFile pages) img = Inr (CBZComicFile (pages @ [img]))"

definition save :: "World \<Rightarrow> ComicFile \<Rightarrow> string \<Rightarrow> Machine \<Rightarrow> (string + unit) \<times> Machine" where
  "save w comicFile outputPath st =
     (if writable w outputPath
      then (Inr (), st\<lparr>files := (files st)(outputPath \<mapsto> comicFile)\<rparr>)
      else (Inl ''open: cannot write'', st))"

text \<open>\<open>fetchImage\<close> ends the process on every error of the request.\<close>

definition fetchImage :: "World \<Rightarrow> string \<Rightarrow> Machine \<Rightarrow> string go \<times> Machine" where
  "fetchImage w imgLink st =
     (case imageBytes w imgLink of
        None \<Rightarrow> (Exited 1, st\<lparr>fetched := fetched st @ [imgLink]\<rparr>)
      | Some body \<Rightarrow> (Return body, st\<lparr>fetched := fetched st @ [imgLink]\<rparr>))"

text \<open>The loop of \<open>saveBatch\<close> over the image links of the batch.\<close>

fun addImages :: "World \<Rightarrow> string list \<Rightarrow> ComicFile \<Rightarrow> Machine \<Rightarrow> ComicFile go \<times> Machine" where
  "addImages w [] comicFile st = (Return comicFile, st)"
| "addImages w (imgLink # rest) comicFile st =
     (if Contains imgLink ''.gif'' then addImages w rest comicFile st
      else
        (case fetchImage w imgLink st of
           (Return img, st1) \<Rightarrow>
             (case addImage w comicFile img of
                Inl err \<Rightarrow> (Panicked err, st1\<lparr>comicCalls := comicCalls st1 + 1\<rparr>)
              | Inr comicFile' \<Rightarrow>
                  addImages w rest comicFile' (st1\<lparr>comicCalls := comicCalls st1 + 1\<rparr>))
         | (Panicked m, st1) \<Rightarrow> (Panicked m, st1)
         | (Exited c, st1) \<Rightarrow> (Exited c, st1)))"

text \<open>
  The deferred function of \<open>saveBatch\<close>: \<^verbatim>\<open>recover()\<close> stops a panic and the call
  returns; it does not run when the process exits.
\<close>

definition recover :: "unit go \<times> Machine \<Rightarrow> unit go \<times> Machine" where
  "recover r =
     (case r of
        (Return x, st) \<Rightarrow> (Return (), st)
      | (Panicked m, st) \<Rightarrow> (Return (), st)
      | (Exited c, st) \<Rightarrow> (Exited c, st))"

definition outFile :: "string \<Rightarrow> string \<Rightarrow> Opts \<Rightarrow> EpisodeBatch \<Rightarrow> string" where
  "outFile titre lang opts episodeBatch =
     ''webtoon/'' @ titre @ ''/'' @ lang @ ''/'' @ EpisodeBatch.title episodeBatch @ ''.'' @
     Opts.format opts"

text \<open>
  \<open>saveBatch\<close>.  \<^verbatim>\<open>os.Stat\<close> returns no error exactly when the state holds a file at the
  path.
\<close>

definition saveBatch ::
  "World \<Rightarrow> Flags \<Rightarrow> string \<Rightarrow> string \<Rightarrow> Opts \<Rightarrow> EpisodeBatch \<Rightarrow> Machine \<Rightarrow> unit go \<times> Machine" where
  "saveBatch w flags titre lang opts episodeBatch st =
     recover
       (if \<not> FileVerify flags \<or> files st (outFile titre lang opts episodeBatch) = None then
          (case addImages w (imgLinks episodeBatch) (getComicFile (Opts.format opts))
                  (st\<lparr>comicCalls := comicCalls st + 1\<rparr>) of
             (Return comicFile, st1) \<Rightarrow>
               (case save w comicFile (outFile titre lang opts episodeBatch)
                       (st1\<lparr>comicCalls := comicCalls st1 + 1\<rparr>) of
                  (Inl err, st2) \<Rightarrow> (Panicked err, st2)
                | (Inr u, st2) \<Rightarrow> (Return (), st2))
           | (Panicked m, st1) \<Rightarrow> (Panicked m, st1)
           | (Exited c, st1) \<Rightarrow> (Exited c, st1))
        else (Return (), st))"

text \<open>
  The dispatch loop of \<open>GetWebtoon\<close> with \<^verbatim>\<open>pool.Wait()\<close>, for a pool of one worker
  (\<^verbatim>\<open>-E 1\<close>): \<^verbatim>\<open>pool.Add\<close> blocks until the batch before has called \<^verbatim>\<open>pool.Done\<close>,
  so the batches run one after the other in their order.  An exit of the process ends
  the run.
\<close>

fun runBatches ::
  "World \<Rightarrow> Flags \<Rightarrow> string \<Rightarrow> string \<Rightarrow> Opts \<Rightarrow> EpisodeBatch list \<Rightarrow> Machine \<Rightarrow> unit go \<times> Machine" where
  "runBatches w flags titre lang opts [] st = (Return (), st)"
| "runBatches w flags titre lang opts (episodeBatch # rest) st =
     (case saveBatch w flags titre lang opts episodeBatch st of
        (Exited c, st1) \<Rightarrow> (Exited c, st1)
      | (Return x, st1) \<Rightarrow> runBatches w flags titre lang opts rest st1
      | (Panicked m, st1) \<Rightarrow> (Panicked m, st1))"

text \<open>
  \<open>getWebtoonTitle\<close>: the title and the language.  Indexing the split URL panics when
  it has fewer than three parts.
\<close>

definition getWebtoonTitle :: "World \<Rightarrow> Opts \<Rightarrow> (error + string \<times> string) go" where
  "getWebtoonTitle w opts =
     (if \<not> validURI w (Opts.url opts) then Return (Inl InvalidURI)
      else
        (let outURL = ReplaceAll (ReplaceAll (ReplaceAll (ReplaceAll (Opts.url opts)
                        ''http://'' []) ''https://'' []) ''www.'' []) ''webtoons.com/'' [];
             parts = Split outURL CHR ''/''
         in if length parts < 3 then Panicked ''index out of range''
            else Return (Inr (parts ! 2, parts ! 0))))"

text \<open>
  \<open>GetWebtoon\<close>.  \<open>None\<close>: the crawler did not end within the fuel.  The directory made
  by \<^verbatim>\<open>os.MkdirAll\<close> is not part of the state.
\<close>

definition GetWebtoon ::
  "nat \<Rightarrow> World \<Rightarrow> Flags \<Rightarrow> Opts \<Rightarrow> Machine \<Rightarrow> (unit go \<times> Machine) option" where
  "GetWebtoon fuel w flags opts st =
     (case getWebtoonTitle w opts of
        Panicked m \<Rightarrow> Some (Panicked m, st)
      | Exited c \<Rightarrow> Some (Exited c, st)
      | Return (Inl err) \<Rightarrow> Some (Panicked ''invalid URI for request'', st)
      | Return (Inr (titre, lang)) \<Rightarrow>
          (case getEpisodeBatches fuel w (Opts.url opts) (Opts.minEp opts) (Opts.maxEp opts)
                  (nat (Opts.epsPerFile opts)) of
             None \<Rightarrow> None
           | Some (Panicked m) \<Rightarrow> Some (Panicked m, st)
           | Some (Exited c) \<Rightarrow> Some (Exited c, st)
           | Some (Return (Inl err)) \<Rightarrow> Some (Panicked ''No episode found'', st)
           | Some (Return (Inr episodeBatches)) \<Rightarrow>
               if episodeBatches = [] then Some (Panicked ''index out of range'', st)
               else
                 (case runBatches w flags titre lang opts episodeBatches st of
                    (Exited c, st1) \<Rightarrow> Some (Exited c, st1)
                  | (Panicked m, st1) \<Rightarrow> Some (Panicked m, st1)
                  | (Return x, st1) \<Rightarrow>
                      if dbExecOk w
                      then Some (Return (),
                             st1\<lparr>webtoon := (webtoon st1)((titre, lang) \<mapsto>
                                   \<lparr>Row.url = Opts.url opts,
                                    last_chapter = EpisodeBatch.maxEp (last episodeBatches),
                                    epsPerFile = Opts.epsPerFile opts,
                                    format = Opts.format opts\<rparr>)\<rparr>)
                      else Some (Panicked ''exec failed'', st1))))"

text \<open>
  The body of the loop over the rows in \<open>GetWebtoons\<close>: the options of the run that
  resumes the series of that row.
\<close>

definition resumeOpts :: "Flags \<Rightarrow> Opts \<Rightarrow> Row \<Rightarrow> Opts" where
  "resumeOpts flags opts row =
     (if \<not> confOverride flags
      then opts\<lparr>Opts.url := Row.url row, Opts.epsPerFile := Row.epsPerFile row,
                Opts.format := Row.format row, Opts.minEp := last_chapter row\<rparr>
      else opts\<lparr>Opts.url := Row.url row\<rparr>)"

text \<open>The test of \<open>getEpisodeBatches\<close> that puts an episode number in the range of a run.\<close>

definition inRange :: "Opts \<Rightarrow> int \<Rightarrow> bool" where
  "inRange opts epNo = (epNo \<ge> Opts.minEp opts \<and> epNo \<le> Opts.maxEp opts)"

section \<open>Example sites\<close>

text \<open>
  One sort that keeps the promise of \<^verbatim>\<open>sort.Slice\<close>: insertion sort with the
  comparison \<open>lt\<close>.
\<close>

fun insertBy :: "('a \<Rightarrow> 'a \<Rightarrow> bool) \<Rightarrow> 'a \<Rightarrow> 'a list \<Rightarrow> 'a list" where
  "insertBy lt x [] = [x]"
| "insertBy lt x (y # ys) = (if lt x y then x # y # ys else y # insertBy lt x ys)"

definition insertionSort :: "('a \<Rightarrow> 'a \<Rightarrow> bool) \<Rightarrow> 'a list \<Rightarrow> 'a list" where
  "insertionSort lt xs = foldr (insertBy lt) xs []"

text \<open>A world in which every request fails; the examples below override parts of it.\<close>

definition offline :: World where
  "offline = \<lparr>listingAnchors = (\<lambda>u. None), episodePage = (\<lambda>u. None),
     manifest = (\<lambda>u. ManifestFetchError), imageBytes = (\<lambda>u. None),
     decodable = (\<lambda>b. True), writable = (\<lambda>p. True), validURI = (\<lambda>u. True),
     dbExecOk = True, mapRange = (\<lambda>xs. xs), sortSlice = insertionSort\<rparr>"

text \<open>An episode page served by the other backend, and its manifest.\<close>

definition ozPage :: EpisodePage where
  "ozPage = \<lparr>viewerImgs = [], documentURL = Some ''https://api/m.json'',
     stillcut = Some ''https://img/{=filename}?type=q70''\<rparr>"

definition ozWorld :: World where
  "ozWorld = offline\<lparr>manifest := (\<lambda>u. if u = ''https://api/m.json''
      then Manifest [(''cut10'', ''j.jpg''), (''cut02'', ''b.jpg''), (''cut01'', ''a.jpg'')]
      else ManifestFetchError)\<rparr>"

section \<open>Notions for the planner's properties\<close>

text \<open>
  The image links of an episode when \<open>getImgLinksForEpisode\<close> returns them, and whether
  it does (it ends the process otherwise).
\<close>

definition imgsOf :: "World \<Rightarrow> string \<Rightarrow> string list" where
  "imgsOf w u = (case getImgLinksForEpisode w u of Return imgs \<Rightarrow> imgs | Panicked m \<Rightarrow> [] | Exited c \<Rightarrow> [])"

definition resolves :: "World \<Rightarrow> string \<Rightarrow> bool" where
  "resolves w u = (\<exists>imgs. getImgLinksForEpisode w u = Return imgs)"

text \<open>The batch that the loop builds in the round that begins at position \<open>s\<close>.\<close>

definition batchAt :: "World \<Rightarrow> string list \<Rightarrow> string list \<Rightarrow> nat \<Rightarrow> nat \<Rightarrow> EpisodeBatch" where
  "batchAt w links titles k s =
     \<lparr>imgLinks = concat (map (imgsOf w) (slice links s (min (s + k) (length links)))),
      title = joinWith ''_'' (slice titles s (min (s + k) (length links))),
      minEp = episodeNo (links ! s),
      maxEp = episodeNo (links ! (min (s + k) (length links) - 1))\<rparr>"

text \<open>
  A series of three episodes on two listing pages; page 2 also holds a link that is no
  viewer link, and every page number beyond 2 shows page 2 again.  Episode 1 has an
  image without \<^verbatim>\<open>data-url\<close>.
\<close>

definition heroList :: string where
  "heroList = ''https://www.webtoons.com/en/fantasy/hero/list?title_no=7''"

definition heroEp1 :: string where
  "heroEp1 = ''https://www.webtoons.com/en/fantasy/hero/e1/viewer?title_no=7&episode_no=1''"

definition heroEp2 :: string where
  "heroEp2 = ''https://www.webtoons.com/en/fantasy/hero/e2/viewer?title_no=7&episode_no=2''"

definition heroEp3 :: string where
  "heroEp3 = ''https://www.webtoons.com/en/fantasy/hero/e3/viewer?title_no=7&episode_no=3''"

definition heroCatalog :: "EpisodeInfo list" where
  "heroCatalog = [\<lparr>EpisodeInfo.title = ''Ep 1'', url = heroEp1\<rparr>,
                  \<lparr>EpisodeInfo.title = ''Ep 2'', url = heroEp2\<rparr>,
                  \<lparr>EpisodeInfo.title = ''Ep 3'', url = heroEp3\<rparr>]"

definition heroWorld :: World where
  "heroWorld = offline
     \<lparr>listingAnchors := (\<lambda>u.
        if u = heroList @ ''&page=1'' then Some [(heroEp3, ''Ep 3''), (heroEp2, ''Ep 2'')]
        else if hasPrefix u (heroList @ ''&page='') then
          Some [(heroEp1, ''Ep 1''), (''/en/fantasy/hero/rss?title_no=7'', ''RSS'')]
        else None),
      episodePage := (\<lambda>u.
        if u = heroEp1 then
          Some \<lparr>viewerImgs = [Some ''https://img/1a.jpg'', None, Some ''https://img/1b.jpg''],
                documentURL = None, stillcut = None\<rparr>
        else if u = heroEp2 then
          Some \<lparr>viewerImgs = [Some ''https://img/2a.jpg''], documentURL = None, stillcut = None\<rparr>
        else if u = heroEp3 then
          Some \<lparr>viewerImgs = [Some ''https://img/3a.jpg''], documentURL = None, stillcut = None\<rparr>
        else None),
      imageBytes := (\<lambda>u. Some (''JPEG '' @ u))\<rparr>"

definition heroOpts :: Opts where
  "heroOpts = \<lparr>Opts.url = heroList, minEp = 1, maxEp = 3, epsPerFile = 1, format = ''pdf''\<rparr>"

definition noFlags :: Flags where
  "noFlags = \<lparr>FileVerify = False, confOverride = False\<rparr>"

text \<open>A machine without files and with an empty table.\<close>

definition freshMachine :: Machine where
  "freshMachine = \<lparr>files = Map.empty, webtoon = Map.empty, fetched = [], comicCalls = 0\<rparr>"

text \<open>
  A listing that shows the one episode under a new title from page 2 on.
\<close>

definition retitledWorld :: World where
  "retitledWorld = offline
     \<lparr>listingAnchors := (\<lambda>u.
        if u = heroList @ ''&page=1'' then Some [(heroEp1, ''Ep 1'')]
        else if hasPrefix u (heroList @ ''&page='') then Some [(heroEp1, ''Ep 1 (HD)'')]
        else None)\<rparr>"

text \<open>
  The batches of the example series with one episode in a file, the series with an
  image that the PDF builder cannot decode, and the series with an image whose request
  fails.
\<close>

definition heroBatches :: "EpisodeBatch list" where
  "heroBatches =
     [\<lparr>imgLinks = [''https://img/1a.jpg'', ''https://img/1b.jpg''], title = ''Ep 1'',
       minEp = 1, maxEp = 1\<rparr>,
      \<lparr>imgLinks = [''https://img/2a.jpg''], title = ''Ep 2'', minEp = 2, maxEp = 2\<rparr>,
      \<lparr>imgLinks = [''https://img/3a.jpg''], title = ''Ep 3'', minEp = 3, maxEp = 3\<rparr>]"

definition heroBrokenImage :: "string \<Rightarrow> World" where
  "heroBrokenImage imgLink = heroWorld\<lparr>decodable := (\<lambda>img. img \<noteq> ''JPEG '' @ imgLink)\<rparr>"

definition heroLostImage :: "string \<Rightarrow> World" where
  "heroLostImage imgLink =
     heroWorld\<lparr>imageBytes := (\<lambda>u. if u = imgLink then None else Some (''JPEG '' @ u))\<rparr>"

text \<open>Two worlds that the crawler and the planner cannot tell apart.\<close>

definition sameSite :: "World \<Rightarrow> World \<Rightarrow> bool" where
  "sameSite w w' =
     (listingAnchors w = listingAnchors w' \<and> episodePage w = episodePage w' \<and>
      manifest w = manifest w' \<and> mapRange w = mapRange w' \<and> sortSlice w = sortSlice w' \<and>
      validURI w = validURI w')"

section \<open>Properties of episodeNo\<close>

lemma findDigitsAfter_Some_occurs:
  "findDigitsAfter lit s = Some m \<Longrightarrow> \<exists>a d b. s = a @ lit @ d # b \<and> isDigit d"
proof (induction s)
  case Nil
  then show ?case by simp
next
  case (Cons c cs)
  show ?case
  proof (cases "hasPrefix (c # cs) lit \<and> takeWhile isDigit (drop (length lit) (c # cs)) \<noteq> []")
    case True
    then have pre: "take (length lit) (c # cs) = lit"
      by (simp add: hasPrefix_def)
    from True obtain d b where db: "drop (length lit) (c # cs) = d # b" and dig: "isDigit d"
      by (cases "drop (length lit) (c # cs)") (auto split: if_splits)
    have "c # cs = take (length lit) (c # cs) @ drop (length lit) (c # cs)"
      by (rule append_take_drop_id [symmetric])
    with pre db have "c # cs = [] @ lit @ d # b"
      by simp
    with dig show ?thesis
      by blast
  next
    case False
    with Cons.prems have "findDigitsAfter lit cs = Some m"
      by (simp split: if_splits)
    then have "\<exists>a d b. cs = a @ lit @ d # b \<and> isDigit d"
      by (rule Cons.IH)
    then obtain a d b where "cs = a @ lit @ d # b" "isDigit d"
      by blast
    then have "c # cs = (c # a) @ lit @ d # b \<and> isDigit d"
      by simp
    then show ?thesis
      by blast
  qed
qed

lemma occurs_findDigitsAfter:
  "s = a @ lit @ d # b \<Longrightarrow> isDigit d \<Longrightarrow> findDigitsAfter lit s \<noteq> None"
proof (induction a arbitrary: s)
  case Nil
  then show ?case
    by (cases lit) (simp_all add: hasPrefix_def)
next
  case (Cons c a')
  have "findDigitsAfter lit (a' @ lit @ d # b) \<noteq> None"
    using Cons.IH [OF refl Cons.prems(2)] .
  with Cons.prems(1) show ?case by simp
qed

lemma takeWhile_digits_run:
  assumes "\<forall>c\<in>set ds. isDigit c" and "post = [] \<or> \<not> isDigit (hd post)"
  shows "takeWhile isDigit (ds @ post) = ds"
proof -
  have "takeWhile isDigit post = []"
    using assms(2) by (cases post) auto
  with assms(1) show ?thesis
    by (simp add: takeWhile_append2)
qed

lemma findDigitsAfter_leftmost:
  assumes "ds \<noteq> []" and "\<forall>c\<in>set ds. isDigit c" and "post = [] \<or> \<not> isDigit (hd post)"
  shows "\<not> (\<exists>a d b. pre @ lit = a @ lit @ d # b \<and> isDigit d) \<Longrightarrow>
         findDigitsAfter lit (pre @ lit @ ds @ post) = Some ds"
proof (induction pre)
  case Nil
  have run: "takeWhile isDigit (ds @ post) = ds"
    using assms(2,3) by (rule takeWhile_digits_run)
  obtain e es where ds: "ds = e # es"
    using assms(1) by (cases ds) auto
  show ?case
  proof (cases lit)
    case Nil
    with run ds show ?thesis
      by (simp add: hasPrefix_def)
  next
    case (Cons l ls)
    with run assms(1) show ?thesis
      by (simp add: hasPrefix_def)
  qed
next
  case (Cons c p)
  define X where "X = c # p @ lit"
  define R where "R = ds @ post"
  have len: "Suc (length lit) \<le> length X" by (simp add: X_def)
  have nopat: "\<not> (\<exists>a d b. p @ lit = a @ lit @ d # b \<and> isDigit d)"
  proof
    assume "\<exists>a d b. p @ lit = a @ lit @ d # b \<and> isDigit d"
    then obtain a d b where "p @ lit = a @ lit @ d # b" "isDigit d" by blast
    then have "(c # p) @ lit = (c # a) @ lit @ d # b \<and> isDigit d" by simp
    with Cons.prems show False by blast
  qed
  have nohead: "\<not> (hasPrefix (X @ R) lit \<and> takeWhile isDigit (drop (length lit) (X @ R)) \<noteq> [])"
  proof
    assume h: "hasPrefix (X @ R) lit \<and> takeWhile isDigit (drop (length lit) (X @ R)) \<noteq> []"
    from len have t: "take (length lit) (X @ R) = take (length lit) X" by simp
    from len have d: "drop (length lit) (X @ R) = drop (length lit) X @ R" by simp
    from len have ne: "drop (length lit) X \<noteq> []" by simp
    then obtain e b where eb: "drop (length lit) X = e # b"
      by (cases "drop (length lit) X") auto
    from h t have pre: "take (length lit) X = lit"
      by (simp add: hasPrefix_def)
    from h d eb have dig: "isDigit e"
      by (auto split: if_splits)
    have "X = take (length lit) X @ drop (length lit) X"
      by (rule append_take_drop_id [symmetric])
    with pre eb have "(c # p) @ lit = [] @ lit @ e # b"
      by (simp add: X_def)
    with dig Cons.prems show False by blast
  qed
  have eq: "X @ R = c # (p @ lit @ ds @ post)"
    by (simp add: X_def R_def)
  have nohead': "\<not> (hasPrefix (c # (p @ lit @ ds @ post)) lit \<and>
      takeWhile isDigit (drop (length lit) (c # (p @ lit @ ds @ post))) \<noteq> [])"
    using nohead unfolding eq .
  have "findDigitsAfter lit (c # (p @ lit @ ds @ post)) =
        findDigitsAfter lit (p @ lit @ ds @ post)"
    by (subst findDigitsAfter.simps) (simp only: nohead' if_False)
  then have "findDigitsAfter lit ((c # p) @ lit @ ds @ post) =
        findDigitsAfter lit (p @ lit @ ds @ post)"
    by simp
  also have "\<dots> = Some ds"
    using nopat by (rule Cons.IH)
  finally show ?case .
qed

text \<open>
  C4 (as amended).  Where the URL holds \<^verbatim>\<open>episode_no=\<close> followed by the digit run \<open>ds\<close>
  (maximal: the next character is not a digit) and no occurrence of the pattern starts
  further left, \<open>episodeNo\<close> returns the decimal value of \<open>ds\<close> when that value fits Go's
  64-bit \<^verbatim>\<open>int\<close>, and the fallback 0 when it does not (the conversion fails and the
  source returns 0).  For a URL without the pattern it returns 0.  The function is total:
  it raises nothing.
\<close>

theorem episodeNo_extracts:
  "(ds \<noteq> [] \<and> (\<forall>c\<in>set ds. isDigit c) \<and> (post = [] \<or> \<not> isDigit (hd post)) \<and>
    \<not> hasPattern (pre @ ''episode_no='') \<longrightarrow>
      episodeNo (pre @ ''episode_no='' @ ds @ post) =
        (if digitsVal ds \<le> maxInt then digitsVal ds else 0)) \<and>
   (\<not> hasPattern u \<longrightarrow> episodeNo u = 0)"
proof (intro conjI impI)
  assume h: "ds \<noteq> [] \<and> (\<forall>c\<in>set ds. isDigit c) \<and> (post = [] \<or> \<not> isDigit (hd post)) \<and>
    \<not> hasPattern (pre @ ''episode_no='')"
  then have "\<not> (\<exists>a d b. pre @ ''episode_no='' = a @ ''episode_no='' @ d # b \<and> isDigit d)"
    unfolding hasPattern_def by blast
  with h have "findDigitsAfter ''episode_no='' (pre @ ''episode_no='' @ ds @ post) = Some ds"
    by (intro findDigitsAfter_leftmost) blast+
  then show "episodeNo (pre @ ''episode_no='' @ ds @ post) =
        (if digitsVal ds \<le> maxInt then digitsVal ds else 0)"
    unfolding episodeNo_def findEpisodeNo_def Atoi_def by simp
next
  assume "\<not> hasPattern u"
  then have "findDigitsAfter ''episode_no='' u = None"
    using findDigitsAfter_Some_occurs [of "''episode_no=''" u] unfolding hasPattern_def
    by (cases "findDigitsAfter ''episode_no='' u") blast+
  then show "episodeNo u = 0"
    unfolding episodeNo_def findEpisodeNo_def by simp
qed

lemma findEpisodeNo_None_no_pattern:
  "findEpisodeNo s = None \<Longrightarrow> \<not> hasPattern s"
  unfolding hasPattern_def findEpisodeNo_def
  using occurs_findDigitsAfter [of s _ "''episode_no=''"] by blast

theorem episodeNo_extracts_witness:
  "''12'' \<noteq> [] \<and> list_all isDigit ''12'' \<and> \<not> isDigit (hd ''&x=1'') \<and>
   \<not> hasPattern (''https://w/en/a/b/c/viewer?title_no=5&'' @ ''episode_no='') \<and>
   episodeNo (''https://w/en/a/b/c/viewer?title_no=5&'' @ ''episode_no='' @ ''12'' @ ''&x=1'') = 12 \<and>
   \<not> hasPattern ''https://w/en/a/b/list?title_no=5'' \<and>
   episodeNo ''https://w/en/a/b/list?title_no=5'' = 0"
proof -
  have h1: "\<forall>c\<in>set ''12''. isDigit c"
    by (simp add: isDigit_def)
  have h2: "\<not> isDigit (hd ''&x=1'')"
    by (simp add: isDigit_def)
  have "findEpisodeNo (''https://w/en/a/b/c/viewer?title_no=5&'' @ ''episode_no='') = None"
    by (simp add: findEpisodeNo_def hasPrefix_def isDigit_def)
  then have h3: "\<not> hasPattern (''https://w/en/a/b/c/viewer?title_no=5&'' @ ''episode_no='')"
    by (rule findEpisodeNo_None_no_pattern)
  have "findEpisodeNo ''https://w/en/a/b/list?title_no=5'' = None"
    by (simp add: findEpisodeNo_def hasPrefix_def isDigit_def)
  then have h4: "\<not> hasPattern ''https://w/en/a/b/list?title_no=5''"
    by (rule findEpisodeNo_None_no_pattern)
  have v: "digitsVal ''12'' = 12" "(12::int) \<le> maxInt"
    by (simp_all add: digitsVal_def maxInt_def)
  from episodeNo_extracts [of "''12''" "''&x=1''" "''https://w/en/a/b/c/viewer?title_no=5&''"
      "''https://w/en/a/b/list?title_no=5''"] h1 h2 h3 h4 v
  show ?thesis by (simp add: list_all_iff)
qed

text \<open>
  The claim as first stated fails where the digits exceed Go's \<^verbatim>\<open>int\<close>: the URL holds
  \<^verbatim>\<open>episode_no=9223372036854775808\<close> (that is \<open>2 ^ 63\<close>) and \<open>episodeNo\<close> returns 0.
\<close>

theorem episodeNo_out_of_range_counterexample:
  "hasPattern ''https://w/en/a/b/c/viewer?title_no=5&episode_no=9223372036854775808'' \<and>
   digitsVal ''9223372036854775808'' = 9223372036854775808 \<and>
   episodeNo ''https://w/en/a/b/c/viewer?title_no=5&episode_no=9223372036854775808'' = 0"
proof -
  have "''https://w/en/a/b/c/viewer?title_no=5&episode_no=9223372036854775808'' =
        ''https://w/en/a/b/c/viewer?title_no=5&'' @ ''episode_no='' @ CHR ''9'' # ''223372036854775808'' \<and>
        isDigit CHR ''9''"
    by (simp add: isDigit_def)
  then have "hasPattern ''https://w/en/a/b/c/viewer?title_no=5&episode_no=9223372036854775808''"
    unfolding hasPattern_def by blast
  moreover have "digitsVal ''9223372036854775808'' = 9223372036854775808"
    by (simp add: digitsVal_def)
  moreover have "episodeNo ''https://w/en/a/b/c/viewer?title_no=5&episode_no=9223372036854775808'' = 0"
    by (simp add: episodeNo_def findEpisodeNo_def hasPrefix_def isDigit_def Atoi_def
        digitsVal_def maxInt_def)
  ultimately show ?thesis by blast
qed

section \<open>Properties of createTitle\<close>

lemma foldl_append_titles:
  "foldl (\<lambda>t e. t @ e @ sep) acc xs = acc @ concat (map (\<lambda>e. e @ sep) xs)"
  by (induction xs arbitrary: acc) simp_all

lemma concat_sep_joinWith:
  "xs \<noteq> [] \<Longrightarrow> concat (map (\<lambda>e. e @ sep) xs) = joinWith sep xs @ sep"
  by (induction sep xs rule: joinWith.induct) simp_all

lemma createTitle_Return:
  "titles \<noteq> [] \<Longrightarrow> createTitle titles = Return (joinWith ''_'' titles)"
proof -
  assume ne: "titles \<noteq> []"
  have "foldl (\<lambda>t e. t @ e @ ''_'') [] titles = joinWith ''_'' titles @ ''_''"
    using concat_sep_joinWith [OF ne, of "''_''"] by (simp add: foldl_append_titles)
  then show ?thesis
    by (simp add: createTitle_def Let_def)
qed

text \<open>
  C9.  For a non-empty list of titles \<open>createTitle\<close> returns the titles joined in their
  order with \<^verbatim>\<open>"_"\<close> between them and none at the end; the titles A, B, C give
  \<^verbatim>\<open>A_B_C\<close>.
\<close>

theorem createTitle_joins:
  "(titles \<noteq> [] \<longrightarrow> createTitle titles = Return (joinWith ''_'' titles)) \<and>
   createTitle [''A'', ''B'', ''C''] = Return ''A_B_C''"
proof
  show "titles \<noteq> [] \<longrightarrow> createTitle titles = Return (joinWith ''_'' titles)"
    using createTitle_Return by blast
  show "createTitle [''A'', ''B'', ''C''] = Return ''A_B_C''"
    by (simp add: createTitle_def Let_def)
qed

theorem createTitle_joins_witness:
  "[''Ep 1'', ''Ep 2''] \<noteq> [] \<and> createTitle [''Ep 1'', ''Ep 2''] = Return ''Ep 1_Ep 2''"
  using createTitle_joins [of "[''Ep 1'', ''Ep 2'']"] by simp

section \<open>Properties of the manifest path\<close>

lemma mapKeys_sorted: "sort (mapKeys members) = sorted_list_of_set (dom (unmarshalImage members))"
proof -
  have "dom (unmarshalImage members) = set (map fst members)"
    by (simp add: unmarshalImage_def dom_map_of_conv_image_fst)
  then show ?thesis
    by (simp only: mapKeys_def sorted_list_of_set_sort_remdups)
qed

lemma mapIndex_dom: "k \<in> dom m \<Longrightarrow> mapIndex m k = the (m k)"
  by (auto simp: mapIndex_def)

text \<open>
  C7.  On the manifest path (both patterns found, the manifest fetched and parsed)
  \<open>getOzPageImgLinks\<close> returns one URL for every key of the manifest's map, in the
  ascending lexicographic order of the keys: the \<open>i\<close>-th URL is the path rule with
  \<^verbatim>\<open>{=filename}\<close> replaced by the file name of the \<open>i\<close>-th smallest key.  The result
  depends on the map alone: members in another order that give the same map give the
  same URLs.
\<close>

theorem getOzPageImgLinks_sorted_keys:
  assumes "documentURL doc = Some docURL" and "manifest w docURL = Manifest members"
    and "stillcut doc = Some pathRule"
  shows "getOzPageImgLinks w doc =
           Return (map (\<lambda>k. ReplaceAll pathRule ''{=filename}'' (the (unmarshalImage members k)))
                       (sorted_list_of_set (dom (unmarshalImage members)))) \<and>
         (\<forall>members'. unmarshalImage members' = unmarshalImage members \<longrightarrow>
            getOzPageImgLinks (w\<lparr>manifest := (manifest w)(docURL := Manifest members')\<rparr>) doc =
            getOzPageImgLinks w doc)"
proof -
  have fin: "finite (dom (unmarshalImage ms))" for ms
    by (simp add: unmarshalImage_def finite_dom_map_of)
  have main: "getOzPageImgLinks w' doc =
           Return (map (\<lambda>k. ReplaceAll pathRule ''{=filename}'' (the (unmarshalImage ms k)))
                       (sorted_list_of_set (dom (unmarshalImage ms))))"
    if "manifest w' docURL = Manifest ms" for w' ms
  proof -
    have "map (\<lambda>k. ReplaceAll pathRule ''{=filename}'' (mapIndex (unmarshalImage ms) k))
            (sorted_list_of_set (dom (unmarshalImage ms))) =
          map (\<lambda>k. ReplaceAll pathRule ''{=filename}'' (the (unmarshalImage ms k)))
            (sorted_list_of_set (dom (unmarshalImage ms)))"
      using fin [of ms] by (intro map_cong refl) (simp add: mapIndex_dom)
    with that assms(1,3) show ?thesis
      by (simp add: getOzPageImgLinks_def mapKeys_sorted)
  qed
  show ?thesis
  proof (intro conjI allI impI)
    show "getOzPageImgLinks w doc =
           Return (map (\<lambda>k. ReplaceAll pathRule ''{=filename}'' (the (unmarshalImage members k)))
                       (sorted_list_of_set (dom (unmarshalImage members))))"
      using assms(2) by (rule main)
  next
    fix members'
    assume eq: "unmarshalImage members' = unmarshalImage members"
    have "manifest (w\<lparr>manifest := (manifest w)(docURL := Manifest members')\<rparr>) docURL = Manifest members'"
      by simp
    from main [OF this] main [OF assms(2)] eq
    show "getOzPageImgLinks (w\<lparr>manifest := (manifest w)(docURL := Manifest members')\<rparr>) doc =
            getOzPageImgLinks w doc"
      by simp
  qed
qed

theorem getOzPageImgLinks_sorted_keys_witness:
  "documentURL ozPage = Some ''https://api/m.json'' \<and>
   manifest ozWorld ''https://api/m.json'' =
     Manifest [(''cut10'', ''j.jpg''), (''cut02'', ''b.jpg''), (''cut01'', ''a.jpg'')] \<and>
   stillcut ozPage = Some ''https://img/{=filename}?type=q70'' \<and>
   getOzPageImgLinks ozWorld ozPage =
     Return [''https://img/a.jpg?type=q70'', ''https://img/b.jpg?type=q70'',
             ''https://img/j.jpg?type=q70''] \<and>
   unmarshalImage [(''cut01'', ''a.jpg''), (''cut10'', ''j.jpg''), (''cut02'', ''b.jpg'')] =
     unmarshalImage [(''cut10'', ''j.jpg''), (''cut02'', ''b.jpg''), (''cut01'', ''a.jpg'')] \<and>
   getOzPageImgLinks
     (ozWorld\<lparr>manifest := (manifest ozWorld)(''https://api/m.json'' :=
        Manifest [(''cut01'', ''a.jpg''), (''cut10'', ''j.jpg''), (''cut02'', ''b.jpg'')])\<rparr>) ozPage =
     Return [''https://img/a.jpg?type=q70'', ''https://img/b.jpg?type=q70'',
             ''https://img/j.jpg?type=q70'']"
proof -
  have d: "documentURL ozPage = Some ''https://api/m.json''"
    by (simp add: ozPage_def)
  have m: "manifest ozWorld ''https://api/m.json'' =
     Manifest [(''cut10'', ''j.jpg''), (''cut02'', ''b.jpg''), (''cut01'', ''a.jpg'')]"
    by (simp add: ozWorld_def)
  have s: "stillcut ozPage = Some ''https://img/{=filename}?type=q70''"
    by (simp add: ozPage_def)
  have u: "unmarshalImage [(''cut01'', ''a.jpg''), (''cut10'', ''j.jpg''), (''cut02'', ''b.jpg'')] =
     unmarshalImage [(''cut10'', ''j.jpg''), (''cut02'', ''b.jpg''), (''cut01'', ''a.jpg'')]"
    by (auto simp: unmarshalImage_def fun_eq_iff)
  have v: "getOzPageImgLinks ozWorld ozPage =
     Return [''https://img/a.jpg?type=q70'', ''https://img/b.jpg?type=q70'',
             ''https://img/j.jpg?type=q70'']"
    by (simp add: getOzPageImgLinks_def ozWorld_def ozPage_def offline_def mapKeys_def
        unmarshalImage_def mapIndex_def hasPrefix_def less_eq_char_def less_char_def)
  from getOzPageImgLinks_sorted_keys [OF d m s] u v d m s
  show ?thesis by simp
qed

section \<open>Properties of the batch planner\<close>

lemma imgLinksLoop_resolved:
  "\<forall>u\<in>set links. resolves w u \<Longrightarrow>
   imgLinksLoop w links acc = Return (acc @ concat (map (imgsOf w) links))"
proof (induction links arbitrary: acc)
  case Nil
  then show ?case by simp
next
  case (Cons u links)
  from Cons.prems obtain imgs where r: "getImgLinksForEpisode w u = Return imgs"
    by (auto simp: resolves_def)
  then have "imgsOf w u = imgs" by (simp add: imgsOf_def)
  with r Cons show ?case by simp
qed

lemma batches_left:
  fixes L start k :: nat
  assumes "start < L" and "0 < k"
  shows "(L - start + k - 1) div k = Suc ((L - (start + k) + k - 1) div k)"
proof -
  define d where "d = L - start"
  have d: "1 \<le> d" using assms(1) by (simp add: d_def)
  have a: "(d + k - 1) div k = Suc ((d - 1) div k)"
  proof -
    have "(d + k - 1) div k = ((d - 1) + k) div k" using d by simp
    also have "\<dots> = Suc ((d - 1) div k)"
      using assms(2) div_add_self2 [of k "d - 1"] by simp
    finally show ?thesis .
  qed
  have b: "(L - (start + k) + k - 1) div k = (d - 1) div k"
  proof (cases "k \<le> d")
    case True
    then have "L - (start + k) + k - 1 = d - 1"
      by (simp add: d_def)
    then show ?thesis by simp
  next
    case False
    then have "L - (start + k) = 0" by (simp add: d_def)
    moreover from False d have "(d - 1) div k = 0" by simp
    ultimately show ?thesis using assms(2) by simp
  qed
  from a b show ?thesis by (simp add: d_def)
qed

lemma upt_starts:
  "map (\<lambda>j. start + j * k) [0..<Suc n] = start # map (\<lambda>j. (start + k) + j * k) [0..<n]"
proof -
  have "[0..<Suc n] = 0 # map Suc [0..<n]"
    by (simp add: upt_conv_Cons map_Suc_upt del: upt_Suc)
  then have "map (\<lambda>j. start + j * k) [0..<Suc n] = start # map ((\<lambda>j. start + j * k) \<circ> Suc) [0..<n]"
    by (simp del: upt_Suc)
  also have "(\<lambda>j. start + j * k) \<circ> Suc = (\<lambda>j. (start + k) + j * k)"
    by (auto simp: fun_eq_iff)
  finally show ?thesis .
qed

lemma batchLoop_chunks:
  assumes "0 < k" and "length titles = length links" and "\<forall>u\<in>set links. resolves w u"
  shows "batchLoop w links titles k start acc =
     Return (acc @ map (batchAt w links titles k)
                     (map (\<lambda>j. start + j * k) [0..<(length links - start + k - 1) div k]))"
  using assms
proof (induction w links titles k start acc rule: batchLoop.induct)
  case (1 w links titles k start acc)
  let ?L = "length links"
  let ?e = "if start + k > ?L then ?L else start + k"
  show ?case
  proof (cases "start < ?L")
    case False
    then have "(?L - start + k - 1) div k = 0"
      using \<open>0 < k\<close> by simp
    with False show ?thesis
      by (subst batchLoop.simps) simp
  next
    case True
    have e: "?e = min (start + k) ?L" by simp
    have sub: "set (slice links start ?e) \<subseteq> set links"
      unfolding slice_def by (meson set_drop_subset set_take_subset subset_trans)
    have imgs: "getImgLinksForEpisodes w (slice links start ?e) =
        Return (concat (map (imgsOf w) (slice links start ?e)))"
    proof -
      have "\<forall>u\<in>set (slice links start ?e). resolves w u"
        using sub "1.prems"(3) by blast
      then have "imgLinksLoop w (slice links start ?e) [] =
          Return ([] @ concat (map (imgsOf w) (slice links start ?e)))"
        by (rule imgLinksLoop_resolved)
      then show ?thesis
        by (simp only: getImgLinksForEpisodes_def append_Nil)
    qed
    have "slice titles start ?e \<noteq> []"
      using True "1.prems"(1,2) by (auto simp: slice_def)
    then have ttl: "createTitle (slice titles start ?e) = Return (joinWith ''_'' (slice titles start ?e))"
      by (rule createTitle_Return)
    let ?b = "\<lparr>imgLinks = concat (map (imgsOf w) (slice links start ?e)),
               title = joinWith ''_'' (slice titles start ?e),
               minEp = episodeNo (links ! start),
               maxEp = episodeNo (links ! (?e - 1))\<rparr>"
    have b: "?b = batchAt w links titles k start"
      unfolding batchAt_def e ..
    have IH: "batchLoop w links titles k (start + k) (acc @ [?b]) =
        Return ((acc @ [?b]) @ map (batchAt w links titles k)
                     (map (\<lambda>j. (start + k) + j * k) [0..<(?L - (start + k) + k - 1) div k]))"
      using "1.IH" [OF True imgs ttl "1.prems"] .
    have step: "batchLoop w links titles k start acc = batchLoop w links titles k (start + k) (acc @ [?b])"
      by (subst batchLoop.simps) (simp only: True imgs ttl if_True go.case)
    have n: "(?L - start + k - 1) div k = Suc ((?L - (start + k) + k - 1) div k)"
      using True "1.prems"(1) by (rule batches_left)
    have "batchLoop w links titles k start acc =
        Return ((acc @ [?b]) @ map (batchAt w links titles k)
                     (map (\<lambda>j. (start + k) + j * k) [0..<(?L - (start + k) + k - 1) div k]))"
      by (simp only: step IH)
    also have "\<dots> = Return (acc @ map (batchAt w links titles k)
                     (map (\<lambda>j. start + j * k) [0..<Suc ((?L - (start + k) + k - 1) div k)]))"
      by (simp only: upt_starts b list.map append_assoc append_Cons append_Nil)
    finally show ?thesis
      by (simp only: n)
  qed
qed

lemma concat_chunks: "concat (map (chunkOf k xs) [0..<n]) = take (n * k) xs"
proof (induction n)
  case 0
  then show ?case by simp
next
  case (Suc n)
  have "take (n * k) xs @ take k (drop (n * k) xs) = take (n * k + k) xs"
    by (simp add: take_add)
  with Suc show ?case
    by (simp add: chunkOf_def add.commute)
qed

lemma ceil_bounds:
  fixes L k :: nat
  assumes "0 < k" and "0 < L"
  shows "((L + k - 1) div k - 1) * k < L" and "L \<le> (L + k - 1) div k * k" and "0 < (L + k - 1) div k"
proof -
  have n: "(L + k - 1) div k = Suc ((L - 1) div k)"
  proof -
    have "(L + k - 1) div k = ((L - 1) + k) div k" using assms(2) by simp
    also have "\<dots> = Suc ((L - 1) div k)"
      using assms(1) div_add_self2 [of k "L - 1"] by simp
    finally show ?thesis .
  qed
  have le: "(L - 1) div k * k \<le> L - 1" by simp
  have "((L + k - 1) div k - 1) * k = (L - 1) div k * k"
    unfolding n by simp
  with le assms(2) show "((L + k - 1) div k - 1) * k < L"
    by linarith
  have lt: "L - 1 < (L - 1) div k * k + k"
    using assms(1) by (metis add.commute dividend_less_div_times mult.commute)
  have "(L + k - 1) div k * k = (L - 1) div k * k + k"
    unfolding n by simp
  with lt assms(2) show "L \<le> (L + k - 1) div k * k"
    by linarith
  show "0 < (L + k - 1) div k" unfolding n by simp
qed

lemma slice_min: "slice xs s (min (s + k) (length xs)) = take k (drop s xs)"
  by (cases "s + k \<le> length xs") (simp_all add: slice_def min_def)

lemma last_chunk_nth:
  assumes "s < length xs" and "0 < k"
  shows "last (take k (drop s xs)) = xs ! (min (s + k) (length xs) - 1)"
proof -
  let ?ys = "take k (drop s xs)"
  have len: "length ?ys = min k (length xs - s)" by simp
  have ne: "?ys \<noteq> []" using assms by auto
  have "last ?ys = ?ys ! (length ?ys - 1)"
    using ne by (rule last_conv_nth)
  also have "\<dots> = xs ! (s + (length ?ys - 1))"
    using assms by (simp add: min_def)
  also have "s + (length ?ys - 1) = min (s + k) (length xs) - 1"
    using assms len by arith
  finally show ?thesis .
qed

lemma hd_chunk_nth:
  assumes "s < length xs" and "0 < k"
  shows "hd (take k (drop s xs)) = xs ! s"
  using assms by (simp add: hd_drop_conv_nth)

text \<open>
  C2.  For a filtered list \<open>desired\<close> that is not empty, of length \<open>L\<close>, and a batch size
  \<open>k \<ge> 1\<close> (the image links of every episode resolving), the planner returns exactly
  \<open>\<lceil>L / k\<rceil>\<close> batches.  Batch \<open>i\<close> is built from the \<open>i\<close>-th chunk of size \<open>k\<close> of the list:
  every chunk but the last has \<open>k\<close> episodes, the last has the remaining \<open>L - i * k\<close>
  (at least one), the chunks in their order make up the list again, and \<open>minEp\<close> and
  \<open>maxEp\<close> of a batch are the numbers of the first and the last episode of its chunk; its
  title and image links are those of the chunk.
\<close>

theorem planBatches_partition:
  assumes des: "desired = filter (\<lambda>e. lo \<le> episodeNo (EpisodeInfo.url e) \<and>
                                  episodeNo (EpisodeInfo.url e) \<le> hi) catalog"
    and ne: "desired \<noteq> []" and k: "1 \<le> k"
    and res: "\<forall>e\<in>set desired. resolves w (EpisodeInfo.url e)"
  shows "\<exists>bs. planBatches w catalog lo hi k = Return (Inr bs) \<and>
     length bs = (length desired + k - 1) div k \<and>
     concat (map (chunkOf k desired) [0..<length bs]) = desired \<and>
     (\<forall>i<length bs.
        length (chunkOf k desired i) = (if Suc i < length bs then k else length desired - i * k) \<and>
        chunkOf k desired i \<noteq> [] \<and>
        EpisodeBatch.minEp (bs ! i) = episodeNo (EpisodeInfo.url (hd (chunkOf k desired i))) \<and>
        EpisodeBatch.maxEp (bs ! i) = episodeNo (EpisodeInfo.url (last (chunkOf k desired i))) \<and>
        EpisodeBatch.title (bs ! i) = joinWith ''_'' (map EpisodeInfo.title (chunkOf k desired i)) \<and>
        getImgLinksForEpisodes w (map EpisodeInfo.url (chunkOf k desired i)) =
          Return (imgLinks (bs ! i)))"
proof -
  define links where "links = map EpisodeInfo.url desired"
  define titles where "titles = map EpisodeInfo.title desired"
  define L where "L = length desired"
  define n where "n = (L + k - 1) div k"
  define bs where "bs = map (batchAt w links titles k) (map (\<lambda>j. j * k) [0..<n])"
  have kpos: "0 < k" using k by simp
  have Lpos: "0 < L" using ne by (simp add: L_def)
  have lenl: "length links = L" and lent: "length titles = length links"
    by (simp_all add: links_def titles_def L_def)
  have resl: "\<forall>u\<in>set links. resolves w u"
    using res by (simp add: links_def)
  have loop: "batchLoop w links titles k 0 [] = Return bs"
    using batchLoop_chunks [OF kpos lent resl, of 0 "[]"]
    by (simp add: bs_def n_def lenl)
  have plan: "planBatches w catalog lo hi k = Return (Inr bs)"
    using ne loop unfolding planBatches_def Let_def des [symmetric] links_def [symmetric]
      titles_def [symmetric]
    by (simp add: links_def)
  have lenbs: "length bs = n" by (simp add: bs_def)
  have nb: "(n - 1) * k < L" "L \<le> n * k" "0 < n"
    using ceil_bounds [OF kpos Lpos] by (simp_all add: n_def)
  have cover: "concat (map (chunkOf k desired) [0..<length bs]) = desired"
    using nb(2) by (simp add: concat_chunks lenbs L_def)
  have each: "length (chunkOf k desired i) = (if Suc i < length bs then k else length desired - i * k) \<and>
        chunkOf k desired i \<noteq> [] \<and>
        EpisodeBatch.minEp (bs ! i) = episodeNo (EpisodeInfo.url (hd (chunkOf k desired i))) \<and>
        EpisodeBatch.maxEp (bs ! i) = episodeNo (EpisodeInfo.url (last (chunkOf k desired i))) \<and>
        EpisodeBatch.title (bs ! i) = joinWith ''_'' (map EpisodeInfo.title (chunkOf k desired i)) \<and>
        getImgLinksForEpisodes w (map EpisodeInfo.url (chunkOf k desired i)) =
          Return (imgLinks (bs ! i))" if i: "i < length bs" for i
  proof -
    from i have iln: "i < n" by (simp add: lenbs)
    then have "i \<le> n - 1" by arith
    then have "i * k \<le> (n - 1) * k" by (rule mult_le_mono1)
    with nb(1) have s: "i * k < L" by linarith
    have b: "bs ! i = batchAt w links titles k (i * k)"
      using iln by (simp add: bs_def)
    have ch: "chunkOf k desired i = take k (drop (i * k) desired)"
      by (simp add: chunkOf_def)
    have chl: "map EpisodeInfo.url (chunkOf k desired i) = slice links (i * k) (min (i * k + k) (length links))"
      using slice_min [of links "i * k" k]
      by (simp add: ch links_def take_map drop_map)
    have cht: "map EpisodeInfo.title (chunkOf k desired i) = slice titles (i * k) (min (i * k + k) (length links))"
      using slice_min [of titles "i * k" k] lent
      by (simp add: ch titles_def take_map drop_map)
    have cne: "chunkOf k desired i \<noteq> []"
      using s kpos by (simp add: ch L_def)
    have clen: "length (chunkOf k desired i) = (if Suc i < length bs then k else length desired - i * k)"
    proof (cases "Suc i < n")
      case True
      then have "Suc i \<le> n - 1" by arith
      then have "Suc i * k \<le> (n - 1) * k" by (rule mult_le_mono1)
      with nb(1) have "Suc i * k < L" by linarith
      then have "i * k + k < L" by simp
      with True show ?thesis by (simp add: ch lenbs L_def)
    next
      case False
      with iln have "i = n - 1" by simp
      with nb(2) nb(3) have "L - i * k \<le> k"
        by (cases n) (simp_all add: algebra_simps)
      with False show ?thesis by (simp add: ch lenbs L_def min_def)
    qed
    have mn: "EpisodeBatch.minEp (bs ! i) = episodeNo (EpisodeInfo.url (hd (chunkOf k desired i)))"
    proof -
      have "hd (chunkOf k desired i) = desired ! (i * k)"
        unfolding ch using s kpos by (intro hd_chunk_nth) (simp_all add: L_def)
      moreover have "links ! (i * k) = EpisodeInfo.url (desired ! (i * k))"
        using s by (simp add: links_def L_def)
      ultimately show ?thesis by (simp add: b batchAt_def)
    qed
    have mx: "EpisodeBatch.maxEp (bs ! i) = episodeNo (EpisodeInfo.url (last (chunkOf k desired i)))"
    proof -
      have "last (chunkOf k desired i) = desired ! (min (i * k + k) (length desired) - 1)"
        unfolding ch using s kpos by (intro last_chunk_nth) (simp_all add: L_def)
      moreover have "min (i * k + k) (length desired) - 1 < length desired"
        using Lpos kpos unfolding L_def by arith
      then have "links ! (min (i * k + k) (length desired) - 1) =
          EpisodeInfo.url (desired ! (min (i * k + k) (length desired) - 1))"
        by (simp add: links_def)
      ultimately show ?thesis
        using lenl by (simp add: b batchAt_def L_def)
    qed
    have tt: "EpisodeBatch.title (bs ! i) = joinWith ''_'' (map EpisodeInfo.title (chunkOf k desired i))"
      by (simp add: b batchAt_def cht)
    have im: "getImgLinksForEpisodes w (map EpisodeInfo.url (chunkOf k desired i)) =
          Return (imgLinks (bs ! i))"
    proof -
      have "set (chunkOf k desired i) \<subseteq> set desired"
        unfolding ch by (meson set_drop_subset set_take_subset subset_trans)
      with res have "\<forall>u\<in>set (map EpisodeInfo.url (chunkOf k desired i)). resolves w u"
        by auto
      then have "imgLinksLoop w (map EpisodeInfo.url (chunkOf k desired i)) [] =
          Return ([] @ concat (map (imgsOf w) (map EpisodeInfo.url (chunkOf k desired i))))"
        by (rule imgLinksLoop_resolved)
      then show ?thesis
        unfolding getImgLinksForEpisodes_def
        by (simp add: b batchAt_def chl [symmetric])
    qed
    from clen cne mn mx tt im show ?thesis by blast
  qed
  from plan lenbs cover each show ?thesis
    unfolding n_def L_def by blast
qed

section \<open>The example series evaluated\<close>

lemma hero_episodeNo:
  "episodeNo heroEp1 = 1" "episodeNo heroEp2 = 2" "episodeNo heroEp3 = 3"
  by (simp_all add: heroEp1_def heroEp2_def heroEp3_def episodeNo_def findEpisodeNo_def
      hasPrefix_def isDigit_def Atoi_def digitsVal_def maxInt_def)

lemma hero_ne: "heroEp1 \<noteq> heroEp2" "heroEp1 \<noteq> heroEp3" "heroEp2 \<noteq> heroEp3"
   "heroEp2 \<noteq> heroEp1" "heroEp3 \<noteq> heroEp1" "heroEp3 \<noteq> heroEp2"
  by (simp_all add: heroEp1_def heroEp2_def heroEp3_def)

lemma hero_imgs:
  "getImgLinksForEpisode heroWorld heroEp1 = Return [''https://img/1a.jpg'', ''https://img/1b.jpg'']"
  "getImgLinksForEpisode heroWorld heroEp2 = Return [''https://img/2a.jpg'']"
  "getImgLinksForEpisode heroWorld heroEp3 = Return [''https://img/3a.jpg'']"
  by (simp_all add: getImgLinksForEpisode_def heroWorld_def offline_def hero_ne)

lemma hero_pages:
  "nextPageUrl heroList (Suc 0) = heroList @ ''&page=1''"
  "nextPageUrl (heroList @ ''&page=1'') (Suc (Suc 0)) = heroList @ ''&page=2''"
  "nextPageUrl (heroList @ ''&page=2'') (Suc (Suc (Suc 0))) = heroList @ ''&page=3''"
  by (simp_all add: nextPageUrl_def heroList_def hasPrefix_def isDigit_def showNat.simps digitChar_def)

lemma hero_viewer:
  "Contains heroEp1 ''/viewer''" "Contains heroEp2 ''/viewer''" "Contains heroEp3 ''/viewer''"
  "\<not> Contains ''/en/fantasy/hero/rss?title_no=7'' ''/viewer''"
  "\<not> Contains heroList ''/viewer''"
  by (simp_all add: heroEp1_def heroEp2_def heroEp3_def heroList_def hasPrefix_def)

lemma hero_listing:
  "getEpisodeLinksForPage heroWorld (heroList @ ''&page=1'') =
     Some [\<lparr>EpisodeInfo.title = ''Ep 3'', url = heroEp3\<rparr>, \<lparr>EpisodeInfo.title = ''Ep 2'', url = heroEp2\<rparr>]"
  "getEpisodeLinksForPage heroWorld (heroList @ ''&page=2'') =
     Some [\<lparr>EpisodeInfo.title = ''Ep 1'', url = heroEp1\<rparr>]"
  "getEpisodeLinksForPage heroWorld (heroList @ ''&page=3'') =
     Some [\<lparr>EpisodeInfo.title = ''Ep 1'', url = heroEp1\<rparr>]"
  by (simp_all add: getEpisodeLinksForPage_def heroWorld_def offline_def hero_viewer hasPrefix_def)

lemma hero_crawl:
  "getAllEpisodeLinks 3 heroWorld heroList = Some heroCatalog"
proof -
  have "crawlPages 3 heroWorld heroList 1 [] =
     Some [\<lparr>EpisodeInfo.title = ''Ep 3'', url = heroEp3\<rparr>, \<lparr>EpisodeInfo.title = ''Ep 2'', url = heroEp2\<rparr>,
           \<lparr>EpisodeInfo.title = ''Ep 1'', url = heroEp1\<rparr>]"
    by (simp add: numeral_3_eq_3 hero_pages hero_listing hero_ne)
  moreover have "sortSlice heroWorld = insertionSort" "mapRange heroWorld = (\<lambda>xs. xs)"
    by (simp_all add: heroWorld_def offline_def)
  ultimately show ?thesis
    by (simp add: getAllEpisodeLinks_def insertionSort_def hero_episodeNo heroCatalog_def)
qed


lemma hero_resolves: "list_all (\<lambda>e. resolves heroWorld (EpisodeInfo.url e)) heroCatalog"
  by (simp add: heroCatalog_def resolves_def hero_imgs)

lemma hero_filter_all:
  "heroCatalog = filter (\<lambda>e. 1 \<le> episodeNo (EpisodeInfo.url e) \<and> episodeNo (EpisodeInfo.url e) \<le> 3) heroCatalog"
  by (simp add: heroCatalog_def hero_episodeNo)

theorem planBatches_partition_witness:
  "heroCatalog = filter (\<lambda>e. 1 \<le> episodeNo (EpisodeInfo.url e) \<and>
                            episodeNo (EpisodeInfo.url e) \<le> 3) heroCatalog \<and>
   heroCatalog \<noteq> [] \<and> (1::nat) \<le> 2 \<and>
   list_all (\<lambda>e. resolves heroWorld (EpisodeInfo.url e)) heroCatalog \<and>
   (\<exists>bs. planBatches heroWorld heroCatalog 1 3 2 = Return (Inr bs) \<and> length bs = 2 \<and>
      concat (map (chunkOf 2 heroCatalog) [0..<length bs]) = heroCatalog \<and>
      EpisodeBatch.minEp (bs ! 0) = 1 \<and> EpisodeBatch.maxEp (bs ! 0) = 2 \<and>
      EpisodeBatch.title (bs ! 0) = ''Ep 1_Ep 2'' \<and>
      EpisodeBatch.minEp (bs ! 1) = 3 \<and> EpisodeBatch.maxEp (bs ! 1) = 3 \<and>
      EpisodeBatch.title (bs ! 1) = ''Ep 3'')"
proof -
  have ne: "heroCatalog \<noteq> []" by (simp add: heroCatalog_def)
  have k: "(1::nat) \<le> 2" by simp
  have res: "\<forall>e\<in>set heroCatalog. resolves heroWorld (EpisodeInfo.url e)"
    using hero_resolves by (simp add: list_all_iff)
  from planBatches_partition [OF hero_filter_all ne k res]
  obtain bs where plan: "planBatches heroWorld heroCatalog 1 3 2 = Return (Inr bs)"
    and len: "length bs = (length heroCatalog + 2 - 1) div 2"
    and cover: "concat (map (chunkOf 2 heroCatalog) [0..<length bs]) = heroCatalog"
    and each: "\<forall>i<length bs.
        length (chunkOf 2 heroCatalog i) = (if Suc i < length bs then 2 else length heroCatalog - i * 2) \<and>
        chunkOf 2 heroCatalog i \<noteq> [] \<and>
        EpisodeBatch.minEp (bs ! i) = episodeNo (EpisodeInfo.url (hd (chunkOf 2 heroCatalog i))) \<and>
        EpisodeBatch.maxEp (bs ! i) = episodeNo (EpisodeInfo.url (last (chunkOf 2 heroCatalog i))) \<and>
        EpisodeBatch.title (bs ! i) = joinWith ''_'' (map EpisodeInfo.title (chunkOf 2 heroCatalog i)) \<and>
        getImgLinksForEpisodes heroWorld (map EpisodeInfo.url (chunkOf 2 heroCatalog i)) =
          Return (imgLinks (bs ! i))"
    by blast
  have len2: "length bs = 2"
    using len by (simp add: heroCatalog_def)
  have c0: "chunkOf 2 heroCatalog 0 = [\<lparr>EpisodeInfo.title = ''Ep 1'', url = heroEp1\<rparr>,
                  \<lparr>EpisodeInfo.title = ''Ep 2'', url = heroEp2\<rparr>]"
    and c1: "chunkOf 2 heroCatalog 1 = [\<lparr>EpisodeInfo.title = ''Ep 3'', url = heroEp3\<rparr>]"
    by (simp_all add: chunkOf_def heroCatalog_def)
  from each len2 have b0: "EpisodeBatch.minEp (bs ! 0) = 1 \<and> EpisodeBatch.maxEp (bs ! 0) = 2 \<and>
      EpisodeBatch.title (bs ! 0) = ''Ep 1_Ep 2''"
    using c0 by (simp add: hero_episodeNo)
  from each len2 have b1: "EpisodeBatch.minEp (bs ! 1) = 3 \<and> EpisodeBatch.maxEp (bs ! 1) = 3 \<and>
      EpisodeBatch.title (bs ! 1) = ''Ep 3''"
    using c1 by (simp add: hero_episodeNo)
  from plan len2 cover b0 b1 have "\<exists>bs. planBatches heroWorld heroCatalog 1 3 2 = Return (Inr bs) \<and> length bs = 2 \<and>
      concat (map (chunkOf 2 heroCatalog) [0..<length bs]) = heroCatalog \<and>
      EpisodeBatch.minEp (bs ! 0) = 1 \<and> EpisodeBatch.maxEp (bs ! 0) = 2 \<and>
      EpisodeBatch.title (bs ! 0) = ''Ep 1_Ep 2'' \<and>
      EpisodeBatch.minEp (bs ! 1) = 3 \<and> EpisodeBatch.maxEp (bs ! 1) = 3 \<and>
      EpisodeBatch.title (bs ! 1) = ''Ep 3''"
    by blast
  with hero_filter_all ne k hero_resolves show ?thesis by blast
qed

section \<open>No episode in the range\<close>

lemma getWebtoonTitle_not_Exited: "getWebtoonTitle w opts \<noteq> Exited c"
  by (simp add: getWebtoonTitle_def Let_def)

text \<open>
  C5.  For a listing URL whose crawl returns a catalog with no episode number inside
  \<open>[minEp, maxEp]\<close>, \<open>getEpisodeBatches\<close> returns the error \<^verbatim>\<open>No episode found\<close> and no
  batches, and \<open>GetWebtoon\<close> panics without having changed anything: no file, no row, no
  image request.  Where title and language can be read from the URL the panic carries
  that error.
\<close>

theorem getEpisodeBatches_no_match:
  assumes "\<not> Contains (Opts.url opts) ''/viewer''"
    and "getAllEpisodeLinks fuel w (Opts.url opts) = Some catalog"
    and "\<forall>e\<in>set catalog. \<not> inRange opts (episodeNo (EpisodeInfo.url e))"
  shows "getEpisodeBatches fuel w (Opts.url opts) (Opts.minEp opts) (Opts.maxEp opts) k =
           Some (Return (Inl NoEpisodeFound)) \<and>
         (\<exists>m. GetWebtoon fuel w flags opts st = Some (Panicked m, st)) \<and>
         (getWebtoonTitle w opts = Return (Inr (titre, lang)) \<longrightarrow>
            GetWebtoon fuel w flags opts st = Some (Panicked ''No episode found'', st))"
proof -
  have "filter (\<lambda>e. episodeNo (EpisodeInfo.url e) \<ge> Opts.minEp opts \<and>
                     episodeNo (EpisodeInfo.url e) \<le> Opts.maxEp opts) catalog = []"
    using assms(3) by (simp add: filter_empty_conv inRange_def)
  then have plan: "planBatches w catalog (Opts.minEp opts) (Opts.maxEp opts) k' = Return (Inl NoEpisodeFound)" for k'
    by (simp add: planBatches_def)
  have geb: "getEpisodeBatches fuel w (Opts.url opts) (Opts.minEp opts) (Opts.maxEp opts) k' =
           Some (Return (Inl NoEpisodeFound))" for k'
    using assms(1,2) plan by (simp add: getEpisodeBatches_def)
  have named: "GetWebtoon fuel w flags opts st = Some (Panicked ''No episode found'', st)"
    if "getWebtoonTitle w opts = Return (Inr (titre, lang))" for titre lang
    using that geb by (simp add: GetWebtoon_def)
  have any: "\<exists>m. GetWebtoon fuel w flags opts st = Some (Panicked m, st)"
  proof (cases "getWebtoonTitle w opts")
    case (Return r)
    show ?thesis
    proof (cases r)
      case (Inl e)
      with Return show ?thesis by (simp add: GetWebtoon_def)
    next
      case (Inr p)
      obtain t l where "p = (t, l)" by (cases p)
      with Return Inr named [of t l] show ?thesis by simp
    qed
  next
    case (Panicked m)
    then show ?thesis by (simp add: GetWebtoon_def)
  next
    case (Exited c)
    with getWebtoonTitle_not_Exited show ?thesis by blast
  qed
  from geb any named show ?thesis by blast
qed


lemma hero_title: "getWebtoonTitle heroWorld (heroOpts\<lparr>Opts.minEp := a, Opts.maxEp := b\<rparr>) = Return (Inr (''hero'', ''en''))"
  by (simp add: getWebtoonTitle_def heroOpts_def heroWorld_def offline_def heroList_def hasPrefix_def Let_def)

theorem getEpisodeBatches_no_match_witness:
  "\<not> Contains heroList ''/viewer'' \<and>
   getAllEpisodeLinks 3 heroWorld heroList = Some heroCatalog \<and>
   list_all (\<lambda>e. \<not> inRange (heroOpts\<lparr>Opts.minEp := 10, Opts.maxEp := 20\<rparr>)
                       (episodeNo (EpisodeInfo.url e))) heroCatalog \<and>
   getEpisodeBatches 3 heroWorld heroList 10 20 1 = Some (Return (Inl NoEpisodeFound)) \<and>
   getWebtoonTitle heroWorld (heroOpts\<lparr>Opts.minEp := 10, Opts.maxEp := 20\<rparr>) =
     Return (Inr (''hero'', ''en'')) \<and>
   GetWebtoon 3 heroWorld noFlags (heroOpts\<lparr>Opts.minEp := 10, Opts.maxEp := 20\<rparr>) freshMachine =
     Some (Panicked ''No episode found'', freshMachine)"
proof -
  let ?o = "heroOpts\<lparr>Opts.minEp := 10, Opts.maxEp := 20\<rparr>"
  have u: "Opts.url ?o = heroList" "Opts.minEp ?o = 10" "Opts.maxEp ?o = 20"
    by (simp_all add: heroOpts_def)
  have h1: "\<not> Contains (Opts.url ?o) ''/viewer''"
    using hero_viewer(5) by (simp add: u)
  have h2: "getAllEpisodeLinks 3 heroWorld (Opts.url ?o) = Some heroCatalog"
    using hero_crawl by (simp add: u)
  have out: "list_all (\<lambda>e. \<not> inRange ?o (episodeNo (EpisodeInfo.url e))) heroCatalog"
    by (simp add: heroCatalog_def inRange_def hero_episodeNo u)
  then have h3: "\<forall>e\<in>set heroCatalog. \<not> inRange ?o (episodeNo (EpisodeInfo.url e))"
    by (simp add: list_all_iff)
  from getEpisodeBatches_no_match [OF h1 h2 h3, of 1 noFlags freshMachine "''hero''" "''en''"]
    hero_title [where a = 10 and b = 20] hero_viewer(5) hero_crawl out
  show ?thesis
    by (simp add: u)
qed

section \<open>Properties of the catalog crawler\<close>

lemma scanPage_distinct:
  "distinct acc \<Longrightarrow> distinct (snd (scanPage es acc))"
  by (induction es arbitrary: acc) simp_all

lemma scanPage_stops:
  "fst (scanPage es acc) \<Longrightarrow>
   \<exists>pre d rest. es = pre @ d # rest \<and> snd (scanPage es acc) = acc @ pre \<and> d \<in> set (acc @ pre)"
proof (induction es arbitrary: acc)
  case Nil
  then show ?case by simp
next
  case (Cons e es)
  show ?case
  proof (cases "e \<in> set acc")
    case True
    then have "e # es = [] @ e # es \<and> snd (scanPage (e # es) acc) = acc @ [] \<and> e \<in> set (acc @ [])"
      by simp
    then show ?thesis by blast
  next
    case False
    with Cons.prems have "fst (scanPage es (acc @ [e]))" by simp
    from Cons.IH [OF this] obtain pre d rest where "es = pre @ d # rest"
      "snd (scanPage es (acc @ [e])) = (acc @ [e]) @ pre" "d \<in> set ((acc @ [e]) @ pre)"
      by blast
    with False have "e # es = (e # pre) @ d # rest \<and>
        snd (scanPage (e # es) acc) = acc @ (e # pre) \<and> d \<in> set (acc @ (e # pre))"
      by simp
    then show ?thesis by blast
  qed
qed

lemma scanPage_passes:
  "\<not> fst (scanPage es acc) \<Longrightarrow> snd (scanPage es acc) = acc @ es"
  by (induction es arbitrary: acc) (simp_all split: if_splits)



lemma crawlPages_sound:
  "crawlPages fuel w (pageUrl u p) (Suc p) acc = Some res \<Longrightarrow> distinct acc \<Longrightarrow>
   \<exists>k pre. p \<le> k \<and> (\<forall>i. p < i \<and> i \<le> k \<longrightarrow> getEpisodeLinksForPage w (pageUrl u i) \<noteq> None) \<and>
     res = acc @ concat (map (pageEntries w u) [Suc p..<Suc k]) @ pre \<and> distinct res \<and>
     (case getEpisodeLinksForPage w (pageUrl u (Suc k)) of
        None \<Rightarrow> pre = []
      | Some es \<Rightarrow> \<exists>d rest. es = pre @ d # rest \<and> d \<in> set res)"
proof (induction fuel arbitrary: p acc)
  case 0
  then show ?case by simp
next
  case (Suc fuel)
  have nx: "nextPageUrl (pageUrl u p) (Suc p) = pageUrl u (Suc p)" by simp
  show ?case
  proof (cases "getEpisodeLinksForPage w (pageUrl u (Suc p))")
    case None
    with Suc.prems have "res = acc" by (simp add: nx del: pageUrl.simps)
    with None Suc.prems(2) have "p \<le> p \<and> (\<forall>i. p < i \<and> i \<le> p \<longrightarrow> getEpisodeLinksForPage w (pageUrl u i) \<noteq> None) \<and>
     res = acc @ concat (map (pageEntries w u) [Suc p..<Suc p]) @ [] \<and> distinct res \<and>
     (case getEpisodeLinksForPage w (pageUrl u (Suc p)) of
        None \<Rightarrow> [] = []
      | Some es \<Rightarrow> \<exists>d rest. es = [] @ d # rest \<and> d \<in> set res)"
      by (auto simp del: pageUrl.simps)
    then show ?thesis by blast
  next
    case (Some es)
    have spd: "distinct (snd (scanPage es acc))"
      using Suc.prems(2) by (rule scanPage_distinct)
    show ?thesis
    proof (cases "fst (scanPage es acc)")
      case True
      with Some Suc.prems have r: "res = snd (scanPage es acc)" by (simp add: nx del: pageUrl.simps)
      from scanPage_stops [OF True] obtain pre d rest where "es = pre @ d # rest"
        "snd (scanPage es acc) = acc @ pre" "d \<in> set (acc @ pre)" by blast
      with r spd Some have "p \<le> p \<and> (\<forall>i. p < i \<and> i \<le> p \<longrightarrow> getEpisodeLinksForPage w (pageUrl u i) \<noteq> None) \<and>
       res = acc @ concat (map (pageEntries w u) [Suc p..<Suc p]) @ pre \<and> distinct res \<and>
       (case getEpisodeLinksForPage w (pageUrl u (Suc p)) of
          None \<Rightarrow> pre = []
        | Some es \<Rightarrow> \<exists>d rest. es = pre @ d # rest \<and> d \<in> set res)"
        by auto
      then show ?thesis by blast
    next
      case False
      then have acc': "snd (scanPage es acc) = acc @ es"
        by (rule scanPage_passes)
      with spd have d': "distinct (acc @ es)"
        by simp
      from False Some Suc.prems(1) acc'
      have "crawlPages fuel w (pageUrl u (Suc p)) (Suc (Suc p)) (acc @ es) = Some res"
        by (simp add: nx del: pageUrl.simps)
      from Suc.IH [OF this d'] obtain k pre where k: "Suc p \<le> k"
        and ok: "\<forall>i. Suc p < i \<and> i \<le> k \<longrightarrow> getEpisodeLinksForPage w (pageUrl u i) \<noteq> None"
        and res: "res = (acc @ es) @ concat (map (pageEntries w u) [Suc (Suc p)..<Suc k]) @ pre"
        and dr: "distinct res"
        and stop: "(case getEpisodeLinksForPage w (pageUrl u (Suc k)) of
            None \<Rightarrow> pre = []
          | Some es \<Rightarrow> \<exists>d rest. es = pre @ d # rest \<and> d \<in> set res)"
        by blast
      have pe: "pageEntries w u (Suc p) = es"
        using Some by (simp add: pageEntries_def)
      have upt: "[Suc p..<Suc k] = Suc p # [Suc (Suc p)..<Suc k]"
        using k by (simp add: upt_conv_Cons del: upt_Suc)
      have res': "res = acc @ concat (map (pageEntries w u) [Suc p..<Suc k]) @ pre"
        unfolding upt using res pe by simp
      have ok': "\<forall>i. p < i \<and> i \<le> k \<longrightarrow> getEpisodeLinksForPage w (pageUrl u i) \<noteq> None"
      proof (intro allI impI)
        fix i assume i: "p < i \<and> i \<le> k"
        show "getEpisodeLinksForPage w (pageUrl u i) \<noteq> None"
        proof (cases "i = Suc p")
          case True
          with Some show ?thesis by simp
        next
          case False
          with i have "Suc p < i \<and> i \<le> k" by arith
          with ok show ?thesis by blast
        qed
      qed
      from k have "p \<le> k" by simp
      with ok' res' dr stop show ?thesis by blast
    qed
  qed
qed



lemma insertBy_mset: "mset (insertBy lt x ys) = add_mset x (mset ys)"
  by (induction ys) simp_all

lemma insertBy_set: "set (insertBy lt x ys) = insert x (set ys)"
  by (induction ys) auto

lemma insertBy_sorted:
  fixes key :: "'a \<Rightarrow> int"
  shows "sorted (map key ys) \<Longrightarrow> sorted (map key (insertBy (\<lambda>a b. key a < key b) x ys))"
  by (induction ys) (auto simp: insertBy_set)

lemma insertionSort_mset: "mset (insertionSort lt xs) = mset xs"
  by (induction xs) (simp_all add: insertionSort_def insertBy_mset)

lemma insertionSort_sorted:
  fixes key :: "'a \<Rightarrow> int"
  shows "sorted (map key (insertionSort (\<lambda>a b. key a < key b) xs))"
proof (induction xs)
  case Nil
  then show ?case by (simp add: insertionSort_def)
next
  case (Cons x xs)
  then show ?case
    using insertBy_sorted [of key "insertionSort (\<lambda>a b. key a < key b) xs" x]
    by (simp add: insertionSort_def)
qed

lemma runtime_ok_offline:
  "mapRange w = (\<lambda>xs. xs) \<Longrightarrow> sortSlice w = insertionSort \<Longrightarrow> runtime_ok w"
  by (simp add: runtime_ok_def insertionSort_mset insertionSort_sorted)









lemma EpisodeInfo_eqI:
  fixes a e :: EpisodeInfo
  shows "EpisodeInfo.title a = EpisodeInfo.title e \<Longrightarrow> EpisodeInfo.url a = EpisodeInfo.url e \<Longrightarrow> a = e"
  by (cases a, cases e) simp

text \<open>
  C8 (as amended).  The identity by which the crawler recognises an entry is the whole
  entry, title and URL together: an entry of a page is taken as new unless the set holds
  an entry with the same title and the same URL, in which case the crawl stops; and the
  list returned holds every pair of title and URL at most once.
\<close>

theorem crawl_identity_whole_entry:
  "((\<forall>a\<in>set acc. \<not> (EpisodeInfo.title a = EpisodeInfo.title e \<and> EpisodeInfo.url a = EpisodeInfo.url e)) \<longrightarrow>
      scanPage (e # rest) acc = scanPage rest (acc @ [e])) \<and>
   ((\<exists>a\<in>set acc. EpisodeInfo.title a = EpisodeInfo.title e \<and> EpisodeInfo.url a = EpisodeInfo.url e) \<longrightarrow>
      scanPage (e # rest) acc = (True, acc)) \<and>
   (runtime_ok w \<and> getAllEpisodeLinks fuel w u = Some ys \<longrightarrow>
      distinct (map (\<lambda>e. (EpisodeInfo.title e, EpisodeInfo.url e)) ys))"
proof (intro conjI impI)
  assume "\<forall>a\<in>set acc. \<not> (EpisodeInfo.title a = EpisodeInfo.title e \<and> EpisodeInfo.url a = EpisodeInfo.url e)"
  then have "e \<notin> set acc" by blast
  then show "scanPage (e # rest) acc = scanPage rest (acc @ [e])" by simp
next
  assume "\<exists>a\<in>set acc. EpisodeInfo.title a = EpisodeInfo.title e \<and> EpisodeInfo.url a = EpisodeInfo.url e"
  then obtain a where a: "a \<in> set acc" "EpisodeInfo.title a = EpisodeInfo.title e"
      "EpisodeInfo.url a = EpisodeInfo.url e"
    by blast
  from a(2,3) have "a = e" by (rule EpisodeInfo_eqI)
  with a(1) have "e \<in> set acc" by simp
  then show "scanPage (e # rest) acc = (True, acc)" by simp
next
  assume h: "runtime_ok w \<and> getAllEpisodeLinks fuel w u = Some ys"
  then obtain res where c: "crawlPages fuel w (pageUrl u 0) (Suc 0) [] = Some res"
    and ys: "ys = sortSlice w (\<lambda>a b. episodeNo (EpisodeInfo.url a) < episodeNo (EpisodeInfo.url b))
                    (mapRange w res)"
    by (auto simp: getAllEpisodeLinks_def split: option.splits)
  from crawlPages_sound [OF c] have "distinct res" by auto
  moreover have "mset ys = mset res"
    using h unfolding ys runtime_ok_def by simp
  ultimately have "distinct ys"
    by (metis mset_eq_imp_distinct_iff)
  moreover have "inj_on (\<lambda>e. (EpisodeInfo.title e, EpisodeInfo.url e)) (set ys)"
    by (rule inj_onI) (simp add: EpisodeInfo_eqI)
  ultimately show "distinct (map (\<lambda>e. (EpisodeInfo.title e, EpisodeInfo.url e)) ys)"
    by (simp add: distinct_map)
qed

lemma retitled_runtime: "runtime_ok retitledWorld"
  by (rule runtime_ok_offline) (simp_all add: retitledWorld_def offline_def)

lemma retitled_listing:
  "getEpisodeLinksForPage retitledWorld (heroList @ ''&page=1'') =
     Some [\<lparr>EpisodeInfo.title = ''Ep 1'', url = heroEp1\<rparr>]"
  "getEpisodeLinksForPage retitledWorld (heroList @ ''&page=2'') =
     Some [\<lparr>EpisodeInfo.title = ''Ep 1 (HD)'', url = heroEp1\<rparr>]"
  "getEpisodeLinksForPage retitledWorld (heroList @ ''&page=3'') =
     Some [\<lparr>EpisodeInfo.title = ''Ep 1 (HD)'', url = heroEp1\<rparr>]"
  by (simp_all add: getEpisodeLinksForPage_def retitledWorld_def offline_def hero_viewer hasPrefix_def)

lemma retitled_crawl:
  "getAllEpisodeLinks 3 retitledWorld heroList =
     Some [\<lparr>EpisodeInfo.title = ''Ep 1 (HD)'', url = heroEp1\<rparr>,
           \<lparr>EpisodeInfo.title = ''Ep 1'', url = heroEp1\<rparr>]"
proof -
  have "crawlPages 3 retitledWorld heroList 1 [] =
     Some [\<lparr>EpisodeInfo.title = ''Ep 1'', url = heroEp1\<rparr>,
           \<lparr>EpisodeInfo.title = ''Ep 1 (HD)'', url = heroEp1\<rparr>]"
    by (simp add: numeral_3_eq_3 hero_pages retitled_listing)
  moreover have "sortSlice retitledWorld = insertionSort" "mapRange retitledWorld = (\<lambda>xs. xs)"
    by (simp_all add: retitledWorld_def offline_def)
  ultimately show ?thesis
    by (simp add: getAllEpisodeLinks_def insertionSort_def hero_episodeNo)
qed

theorem crawl_identity_whole_entry_witness:
  "\<not> (EpisodeInfo.title \<lparr>EpisodeInfo.title = ''Ep 1'', url = heroEp1\<rparr> = ''Ep 1 (HD)'') \<and>
   scanPage [\<lparr>EpisodeInfo.title = ''Ep 1 (HD)'', url = heroEp1\<rparr>]
            [\<lparr>EpisodeInfo.title = ''Ep 1'', url = heroEp1\<rparr>] =
     (False, [\<lparr>EpisodeInfo.title = ''Ep 1'', url = heroEp1\<rparr>,
              \<lparr>EpisodeInfo.title = ''Ep 1 (HD)'', url = heroEp1\<rparr>]) \<and>
   scanPage [\<lparr>EpisodeInfo.title = ''Ep 1'', url = heroEp1\<rparr>]
            [\<lparr>EpisodeInfo.title = ''Ep 1'', url = heroEp1\<rparr>] =
     (True, [\<lparr>EpisodeInfo.title = ''Ep 1'', url = heroEp1\<rparr>]) \<and>
   runtime_ok retitledWorld \<and>
   getAllEpisodeLinks 3 retitledWorld heroList =
     Some [\<lparr>EpisodeInfo.title = ''Ep 1 (HD)'', url = heroEp1\<rparr>,
           \<lparr>EpisodeInfo.title = ''Ep 1'', url = heroEp1\<rparr>] \<and>
   distinct [(''Ep 1 (HD)'', heroEp1), (''Ep 1'', heroEp1)]"
proof -
  let ?a = "\<lparr>EpisodeInfo.title = ''Ep 1'', url = heroEp1\<rparr>"
  let ?b = "\<lparr>EpisodeInfo.title = ''Ep 1 (HD)'', url = heroEp1\<rparr>"
  note t1 = crawl_identity_whole_entry [of "[?a]" ?b "[]" retitledWorld 3 heroList "[?b, ?a]"]
  note t2 = crawl_identity_whole_entry [of "[?a]" ?a "[]" retitledWorld 3 heroList "[?b, ?a]"]
  from t1 have s1: "scanPage [?b] [?a] = (False, [?a, ?b])" by simp
  from t2 have s2: "scanPage [?a] [?a] = (True, [?a])" by simp
  from t1 retitled_runtime retitled_crawl
  have d: "distinct [(''Ep 1 (HD)'', heroEp1), (''Ep 1'', heroEp1)]" by simp
  from s1 s2 d retitled_runtime retitled_crawl show ?thesis by simp
qed

text \<open>
  With the URL alone as identity the claim fails: on a listing that shows one episode
  under a second title, the returned list holds the URL of that episode twice.
\<close>

theorem crawl_url_twice_counterexample:
  "getAllEpisodeLinks 3 retitledWorld heroList =
     Some [\<lparr>EpisodeInfo.title = ''Ep 1 (HD)'', url = heroEp1\<rparr>,
           \<lparr>EpisodeInfo.title = ''Ep 1'', url = heroEp1\<rparr>] \<and>
   \<not> distinct (map EpisodeInfo.url [\<lparr>EpisodeInfo.title = ''Ep 1 (HD)'', url = heroEp1\<rparr>,
           \<lparr>EpisodeInfo.title = ''Ep 1'', url = heroEp1\<rparr>])"
  using retitled_crawl by simp

section \<open>What the planner reads of the world\<close>

lemma sameSite_getOzPageImgLinks:
  "sameSite w w' \<Longrightarrow> getOzPageImgLinks w doc = getOzPageImgLinks w' doc"
  by (simp add: sameSite_def getOzPageImgLinks_def cong: option.case_cong)

lemma sameSite_getImgLinksForEpisode:
  "sameSite w w' \<Longrightarrow> getImgLinksForEpisode w u = getImgLinksForEpisode w' u"
proof -
  assume s: "sameSite w w'"
  then have "episodePage w u = episodePage w' u"
    by (simp add: sameSite_def)
  then show ?thesis
    unfolding getImgLinksForEpisode_def
    by (simp add: sameSite_getOzPageImgLinks [OF s] cong: option.case_cong if_cong)
qed

lemma sameSite_imgLinksLoop:
  "sameSite w w' \<Longrightarrow> imgLinksLoop w links acc = imgLinksLoop w' links acc"
  by (induction links arbitrary: acc)
     (simp_all add: sameSite_getImgLinksForEpisode cong: go.case_cong)

lemma sameSite_batchLoop:
  "sameSite w w' \<Longrightarrow>
   batchLoop w links titles k start acc = batchLoop w' links titles k start acc"
proof (induction w links titles k start acc rule: batchLoop.induct)
  case (1 w links titles k start acc)
  let ?e = "if length links < start + k then length links else start + k"
  have imgs: "getImgLinksForEpisodes w' (slice links start ?e) =
      getImgLinksForEpisodes w (slice links start ?e)"
    using "1.prems" by (simp add: getImgLinksForEpisodes_def sameSite_imgLinksLoop)
  show ?case
  proof (cases "start < length links")
    case False
    then show ?thesis
      by (simp add: batchLoop.simps [of w] batchLoop.simps [of w'])
  next
    case True
    show ?thesis
    proof (cases "getImgLinksForEpisodes w (slice links start ?e)")
      case (Return imgs')
      show ?thesis
      proof (cases "createTitle (slice titles start ?e)")
        case R: (Return t)
        from "1.IH" [OF True Return R "1.prems"] True Return R imgs show ?thesis
          by (simp add: batchLoop.simps [of w _ _ _ start] batchLoop.simps [of w' _ _ _ start])
      next
        case (Panicked m)
        with True Return imgs show ?thesis
          by (simp add: batchLoop.simps [of w _ _ _ start] batchLoop.simps [of w' _ _ _ start])
      next
        case (Exited c)
        with True Return imgs show ?thesis
          by (simp add: batchLoop.simps [of w _ _ _ start] batchLoop.simps [of w' _ _ _ start])
      qed
    next
      case (Panicked m)
      with True imgs show ?thesis
        by (simp add: batchLoop.simps [of w _ _ _ start] batchLoop.simps [of w' _ _ _ start])
    next
      case (Exited c)
      with True imgs show ?thesis
        by (simp add: batchLoop.simps [of w _ _ _ start] batchLoop.simps [of w' _ _ _ start])
    qed
  qed
qed

lemma sameSite_crawlPages:
  "sameSite w w' \<Longrightarrow> crawlPages fuel w u page acc = crawlPages fuel w' u page acc"
proof (induction fuel arbitrary: u page acc)
  case 0
  then show ?case by simp
next
  case (Suc fuel)
  have "getEpisodeLinksForPage w = getEpisodeLinksForPage w'"
    using Suc.prems by (simp add: fun_eq_iff getEpisodeLinksForPage_def sameSite_def)
  with Suc show ?case by (simp cong: option.case_cong if_cong)
qed

lemma sameSite_getEpisodeBatches:
  "sameSite w w' \<Longrightarrow>
   getEpisodeBatches fuel w u lo hi k = getEpisodeBatches fuel w' u lo hi k"
proof -
  assume s: "sameSite w w'"
  have "getAllEpisodeLinks fuel w u = getAllEpisodeLinks fuel w' u"
    using s sameSite_crawlPages [OF s]
    by (simp add: getAllEpisodeLinks_def sameSite_def cong: option.case_cong)
  moreover have "planBatches w c lo hi k = planBatches w' c lo hi k" for c
    by (simp add: planBatches_def Let_def sameSite_batchLoop [OF s] cong: if_cong)
  ultimately show ?thesis
    by (simp add: getEpisodeBatches_def sameSite_getImgLinksForEpisode [OF s]
        cong: if_cong option.case_cong)
qed

lemma sameSite_getWebtoonTitle:
  "sameSite w w' \<Longrightarrow> getWebtoonTitle w opts = getWebtoonTitle w' opts"
  by (simp add: getWebtoonTitle_def sameSite_def)

lemma sameSite_hero:
  "sameSite (heroBrokenImage l) heroWorld" "sameSite (heroLostImage l) heroWorld"
  by (simp_all add: sameSite_def heroBrokenImage_def heroLostImage_def)

lemma hero_plan:
  "planBatches heroWorld heroCatalog 1 3 1 = Return (Inr heroBatches)"
  by (simp add: planBatches_def heroCatalog_def hero_episodeNo batchLoop.simps slice_def
      getImgLinksForEpisodes_def hero_imgs createTitle_def heroBatches_def)

lemma hero_batches:
  "getEpisodeBatches 3 heroWorld heroList 1 3 (nat 1) = Some (Return (Inr heroBatches))"
  using hero_crawl hero_plan hero_viewer(5) by (simp add: getEpisodeBatches_def)

lemma hero_plan3:
  "planBatches heroWorld heroCatalog 3 3 1 =
     Return (Inr [\<lparr>imgLinks = [''https://img/3a.jpg''], title = ''Ep 3'', minEp = 3, maxEp = 3\<rparr>])"
  by (simp add: planBatches_def heroCatalog_def hero_episodeNo batchLoop.simps slice_def
      getImgLinksForEpisodes_def hero_imgs createTitle_def)


section \<open>Properties of the executor\<close>

text \<open>
  C6.  With \<^verbatim>\<open>-file\<close> set and a file present at the batch's output path, \<open>saveBatch\<close>
  returns at once and leaves the whole state as it was: no image is requested, no
  \<open>ComicFile\<close> is made, added to or saved, and the files, the existing one among them, are
  unchanged.
\<close>

theorem saveBatch_skips_existing_file:
  assumes "FileVerify flags" and "files st (outFile titre lang opts episodeBatch) = Some doc"
  shows "saveBatch w flags titre lang opts episodeBatch st = (Return (), st) \<and>
         fetched (snd (saveBatch w flags titre lang opts episodeBatch st)) = fetched st \<and>
         comicCalls (snd (saveBatch w flags titre lang opts episodeBatch st)) = comicCalls st \<and>
         files (snd (saveBatch w flags titre lang opts episodeBatch st)) = files st"
  using assms by (simp add: saveBatch_def recover_def)

lemma hero_outFile:
  "outFile ''hero'' ''en'' (heroOpts\<lparr>Opts.minEp := a\<rparr>) (heroBatches ! 0) = ''webtoon/hero/en/Ep 1.pdf''"
  "outFile ''hero'' ''en'' (heroOpts\<lparr>Opts.minEp := a\<rparr>) (heroBatches ! 1) = ''webtoon/hero/en/Ep 2.pdf''"
  "outFile ''hero'' ''en'' (heroOpts\<lparr>Opts.minEp := a\<rparr>) (heroBatches ! 2) = ''webtoon/hero/en/Ep 3.pdf''"
  "outFile ''hero'' ''en'' heroOpts (heroBatches ! 0) = ''webtoon/hero/en/Ep 1.pdf''"
  "outFile ''hero'' ''en'' heroOpts (heroBatches ! 1) = ''webtoon/hero/en/Ep 2.pdf''"
  "outFile ''hero'' ''en'' heroOpts (heroBatches ! 2) = ''webtoon/hero/en/Ep 3.pdf''"
  by (simp_all add: outFile_def heroOpts_def heroBatches_def)

theorem saveBatch_skips_existing_file_witness:
  "FileVerify (noFlags\<lparr>FileVerify := True\<rparr>) \<and>
   files (freshMachine\<lparr>files := [''webtoon/hero/en/Ep 1.pdf'' \<mapsto> PDFComicFile [''old page'']]\<rparr>)
     (outFile ''hero'' ''en'' heroOpts (heroBatches ! 0)) = Some (PDFComicFile [''old page'']) \<and>
   saveBatch heroWorld (noFlags\<lparr>FileVerify := True\<rparr>) ''hero'' ''en'' heroOpts (heroBatches ! 0)
     (freshMachine\<lparr>files := [''webtoon/hero/en/Ep 1.pdf'' \<mapsto> PDFComicFile [''old page'']]\<rparr>) =
   (Return (), freshMachine\<lparr>files := [''webtoon/hero/en/Ep 1.pdf'' \<mapsto> PDFComicFile [''old page'']]\<rparr>)"
proof -
  let ?st = "freshMachine\<lparr>files := [''webtoon/hero/en/Ep 1.pdf'' \<mapsto> PDFComicFile [''old page'']]\<rparr>"
  have f: "FileVerify (noFlags\<lparr>FileVerify := True\<rparr>)" by simp
  have e: "files ?st (outFile ''hero'' ''en'' heroOpts (heroBatches ! 0)) = Some (PDFComicFile [''old page''])"
    by (simp add: hero_outFile)
  from saveBatch_skips_existing_file [OF f e, of heroWorld] f e show ?thesis
    by blast
qed


lemmas exec_simps = saveBatch_def recover_def fetchImage_def save_def getComicFile_def
  outFile_def hasPrefix_def heroOpts_def heroBatches_def noFlags_def freshMachine_def

lemma broken2_run:
  "runBatches (heroBrokenImage ''https://img/2a.jpg'') noFlags ''hero'' ''en'' heroOpts heroBatches
     freshMachine =
   (Return (),
    \<lparr>files = [''webtoon/hero/en/Ep 1.pdf'' \<mapsto>
                PDFComicFile [''JPEG https://img/1a.jpg'', ''JPEG https://img/1b.jpg''],
              ''webtoon/hero/en/Ep 3.pdf'' \<mapsto> PDFComicFile [''JPEG https://img/3a.jpg'']],
     webtoon = Map.empty,
     fetched = [''https://img/1a.jpg'', ''https://img/1b.jpg'', ''https://img/2a.jpg'',
                ''https://img/3a.jpg''],
     comicCalls = 9\<rparr>)"
  by (simp add: exec_simps heroBrokenImage_def heroWorld_def offline_def)

lemma lost2_run:
  "runBatches (heroLostImage ''https://img/2a.jpg'') noFlags ''hero'' ''en'' heroOpts heroBatches
     freshMachine =
   (Exited 1,
    \<lparr>files = [''webtoon/hero/en/Ep 1.pdf'' \<mapsto>
                PDFComicFile [''JPEG https://img/1a.jpg'', ''JPEG https://img/1b.jpg'']],
     webtoon = Map.empty,
     fetched = [''https://img/1a.jpg'', ''https://img/1b.jpg'', ''https://img/2a.jpg''],
     comicCalls = 5\<rparr>)"
  by (simp add: exec_simps heroLostImage_def heroWorld_def offline_def)


lemma batchLoop_nonempty:
  "batchLoop w links titles k start acc = Return bs \<Longrightarrow>
   start < length links \<or> acc \<noteq> [] \<Longrightarrow> bs \<noteq> []"
proof (induction w links titles k start acc rule: batchLoop.induct)
  case (1 w links titles k start acc)
  let ?e = "if length links < start + k then length links else start + k"
  show ?case
  proof (cases "start < length links")
    case False
    with "1.prems" show ?thesis
      by (simp add: batchLoop.simps [of w _ _ _ start])
  next
    case True
    from "1.prems"(1) True obtain imgs t
      where i: "getImgLinksForEpisodes w (slice links start ?e) = Return imgs"
        and c: "createTitle (slice titles start ?e) = Return t"
      by (subst (asm) batchLoop.simps) (auto split: go.splits if_splits)
    let ?b = "\<lparr>imgLinks = imgs, title = t, minEp = episodeNo (links ! start),
               maxEp = episodeNo (links ! (?e - 1))\<rparr>"
    from "1.prems"(1) True i c have "batchLoop w links titles k (start + k) (acc @ [?b]) = Return bs"
      by (subst (asm) batchLoop.simps) simp
    from "1.IH" [OF True i c this] show ?thesis by simp
  qed
qed

lemma getEpisodeBatches_nonempty:
  "getEpisodeBatches fuel w u lo hi k = Some (Return (Inr bs)) \<Longrightarrow> bs \<noteq> []"
proof -
  assume g: "getEpisodeBatches fuel w u lo hi k = Some (Return (Inr bs))"
  show ?thesis
  proof (cases "Contains u ''/viewer''")
    case True
    with g show ?thesis
      by (auto simp: getEpisodeBatches_def split: go.splits)
  next
    case False
    with g obtain c where "planBatches w c lo hi k = Return (Inr bs)"
      by (auto simp: getEpisodeBatches_def split: option.splits)
    then obtain links titles where "links \<noteq> []" "batchLoop w links titles k 0 [] = Return bs"
      by (auto simp: planBatches_def Let_def split: if_splits go.splits)
    then show ?thesis
      using batchLoop_nonempty [of w links titles k 0 "[]" bs] by simp
  qed
qed

lemma saveBatch_not_Panicked: "fst (saveBatch w flags titre lang opts b st) \<noteq> Panicked m"
  by (simp add: saveBatch_def recover_def split: prod.splits go.splits sum.splits)

lemma runBatches_not_Panicked: "fst (runBatches w flags titre lang opts bs st) \<noteq> Panicked m"
proof (induction bs arbitrary: st)
  case Nil
  then show ?case by simp
next
  case (Cons b bs)
  obtain r st1 where s: "saveBatch w flags titre lang opts b st = (r, st1)"
    by (cases "saveBatch w flags titre lang opts b st")
  with saveBatch_not_Panicked [of w flags titre lang opts b st] have "r \<noteq> Panicked m'" for m'
    by simp
  with s Cons.IH [of st1] show ?case
    by (cases r) simp_all
qed

lemma resumeOpts_range:
  "\<not> confOverride flags \<Longrightarrow>
   inRange (resumeOpts flags opts row) n \<longleftrightarrow> last_chapter row \<le> n \<and> n \<le> Opts.maxEp opts"
  by (simp add: resumeOpts_def inRange_def)

text \<open>
  C10 (as amended).  When the batches of a series have all ended without the process
  exiting, \<open>GetWebtoon\<close> writes the row of the series with \<open>last_chapter\<close> equal to
  \<open>maxEp\<close> of the last batch, whether or not batches panicked and were recovered.  The
  run that resumes from the row (without \<^verbatim>\<open>-confOverride\<close>) takes the episodes numbered
  from that \<open>last_chapter\<close>, itself included, up to its \<open>maxEp\<close>: the episodes of a failed
  batch with a smaller number are outside its range, the episode numbered \<open>last_chapter\<close>
  is inside it.
\<close>

theorem GetWebtoon_records_last_batch:
  assumes t: "getWebtoonTitle w opts = Return (Inr (titre, lang))"
    and g: "getEpisodeBatches fuel w (Opts.url opts) (Opts.minEp opts) (Opts.maxEp opts)
             (nat (Opts.epsPerFile opts)) = Some (Return (Inr bs))"
    and x: "\<forall>c. fst (runBatches w flags titre lang opts bs st) \<noteq> Exited c"
    and d: "dbExecOk w"
  shows "\<exists>st' row. GetWebtoon fuel w flags opts st = Some (Return (), st') \<and>
           webtoon st' (titre, lang) = Some row \<and>
           last_chapter row = EpisodeBatch.maxEp (last bs) \<and>
           (\<not> confOverride flags' \<longrightarrow>
              (\<forall>n. inRange (resumeOpts flags' opts' row) n \<longleftrightarrow>
                     EpisodeBatch.maxEp (last bs) \<le> n \<and> n \<le> Opts.maxEp opts'))"
proof -
  have ne: "bs \<noteq> []"
    using g by (rule getEpisodeBatches_nonempty)
  obtain r st1 where run: "runBatches w flags titre lang opts bs st = (r, st1)"
    by (cases "runBatches w flags titre lang opts bs st")
  from x run have "r \<noteq> Exited c" for c by simp
  moreover from runBatches_not_Panicked [of w flags titre lang opts bs st] run
  have "r \<noteq> Panicked m" for m by simp
  ultimately have r: "r = Return ()" by (cases r) auto
  let ?row = "\<lparr>Row.url = Opts.url opts, last_chapter = EpisodeBatch.maxEp (last bs),
               epsPerFile = Opts.epsPerFile opts, format = Opts.format opts\<rparr>"
  let ?st = "st1\<lparr>webtoon := (webtoon st1)((titre, lang) \<mapsto> ?row)\<rparr>"
  have "GetWebtoon fuel w flags opts st = Some (Return (), ?st)"
    using t g ne run r d by (simp add: GetWebtoon_def)
  moreover have "webtoon ?st (titre, lang) = Some ?row" by simp
  moreover have "last_chapter ?row = EpisodeBatch.maxEp (last bs)" by simp
  moreover have "\<not> confOverride flags' \<longrightarrow>
              (\<forall>n. inRange (resumeOpts flags' opts' ?row) n \<longleftrightarrow>
                     EpisodeBatch.maxEp (last bs) \<le> n \<and> n \<le> Opts.maxEp opts')"
    by (simp add: resumeOpts_range)
  ultimately show ?thesis by blast
qed


lemma hero_title_any:
  "validURI w heroList \<Longrightarrow> Opts.url opts = heroList \<Longrightarrow>
   getWebtoonTitle w opts = Return (Inr (''hero'', ''en''))"
  by (simp add: getWebtoonTitle_def heroList_def hasPrefix_def Let_def)

lemma hero_variant_facts:
  "validURI (heroBrokenImage l) heroList" "validURI (heroLostImage l) heroList"
  "dbExecOk (heroBrokenImage l)" "dbExecOk (heroLostImage l)"
  by (simp_all add: heroBrokenImage_def heroLostImage_def heroWorld_def offline_def)

lemma hero_opts_fields:
  "Opts.url heroOpts = heroList" "Opts.minEp heroOpts = 1" "Opts.maxEp heroOpts = 3"
  "Opts.epsPerFile heroOpts = 1" "Opts.format heroOpts = ''pdf''"
  by (simp_all add: heroOpts_def)

theorem GetWebtoon_records_last_batch_witness:
  "getWebtoonTitle (heroBrokenImage ''https://img/2a.jpg'') heroOpts = Return (Inr (''hero'', ''en'')) \<and>
   getEpisodeBatches 3 (heroBrokenImage ''https://img/2a.jpg'') heroList 1 3 (nat 1) =
     Some (Return (Inr heroBatches)) \<and>
   fst (runBatches (heroBrokenImage ''https://img/2a.jpg'') noFlags ''hero'' ''en'' heroOpts
          heroBatches freshMachine) = Return () \<and>
   files (snd (runBatches (heroBrokenImage ''https://img/2a.jpg'') noFlags ''hero'' ''en'' heroOpts
          heroBatches freshMachine)) ''webtoon/hero/en/Ep 2.pdf'' = None \<and>
   dbExecOk (heroBrokenImage ''https://img/2a.jpg'') \<and>
   (\<exists>st' row. GetWebtoon 3 (heroBrokenImage ''https://img/2a.jpg'') noFlags heroOpts freshMachine =
        Some (Return (), st') \<and>
      webtoon st' (''hero'', ''en'') = Some row \<and> last_chapter row = 3 \<and>
      \<not> inRange (resumeOpts noFlags heroOpts row) 2 \<and>
      inRange (resumeOpts noFlags heroOpts row) 3)"
proof -
  let ?w = "heroBrokenImage ''https://img/2a.jpg''"
  have t: "getWebtoonTitle ?w heroOpts = Return (Inr (''hero'', ''en''))"
    by (rule hero_title_any) (simp_all add: hero_variant_facts hero_opts_fields)
  have g: "getEpisodeBatches 3 ?w heroList 1 3 (nat 1) = Some (Return (Inr heroBatches))"
    using sameSite_getEpisodeBatches [OF sameSite_hero(1)] hero_batches by simp
  have g': "getEpisodeBatches 3 ?w (Opts.url heroOpts) (Opts.minEp heroOpts) (Opts.maxEp heroOpts)
             (nat (Opts.epsPerFile heroOpts)) = Some (Return (Inr heroBatches))"
    using g by (simp add: hero_opts_fields)
  have r: "fst (runBatches ?w noFlags ''hero'' ''en'' heroOpts heroBatches freshMachine) = Return ()"
    by (simp add: broken2_run)
  then have x: "\<forall>c. fst (runBatches ?w noFlags ''hero'' ''en'' heroOpts heroBatches freshMachine) \<noteq> Exited c"
    by simp
  have f: "files (snd (runBatches ?w noFlags ''hero'' ''en'' heroOpts heroBatches freshMachine))
             ''webtoon/hero/en/Ep 2.pdf'' = None"
    by (simp add: broken2_run)
  have d: "dbExecOk ?w" by (rule hero_variant_facts)
  have nc: "\<not> confOverride noFlags" by (simp add: noFlags_def)
  from GetWebtoon_records_last_batch [OF t g' x d, of noFlags heroOpts]
  obtain st' row where a: "GetWebtoon 3 ?w noFlags heroOpts freshMachine = Some (Return (), st')"
    and b: "webtoon st' (''hero'', ''en'') = Some row"
    and c: "last_chapter row = EpisodeBatch.maxEp (last heroBatches)"
    and e: "\<not> confOverride noFlags \<longrightarrow>
              (\<forall>n. inRange (resumeOpts noFlags heroOpts row) n \<longleftrightarrow>
                     EpisodeBatch.maxEp (last heroBatches) \<le> n \<and> n \<le> Opts.maxEp heroOpts)"
    by blast
  have l: "EpisodeBatch.maxEp (last heroBatches) = 3"
    by (simp add: heroBatches_def)
  from e nc l have e2: "\<not> inRange (resumeOpts noFlags heroOpts row) 2"
    and e3: "inRange (resumeOpts noFlags heroOpts row) 3"
    by (simp_all add: hero_opts_fields)
  from c l have c3: "last_chapter row = 3" by simp
  from a b c3 e2 e3 have "\<exists>st' row. GetWebtoon 3 ?w noFlags heroOpts freshMachine =
        Some (Return (), st') \<and>
      webtoon st' (''hero'', ''en'') = Some row \<and> last_chapter row = 3 \<and>
      \<not> inRange (resumeOpts noFlags heroOpts row) 2 \<and>
      inRange (resumeOpts noFlags heroOpts row) 3"
    by blast
  with t g r f d show ?thesis by (intro conjI)
qed

lemma hero_batches3:
  "getEpisodeBatches 3 heroWorld heroList 3 3 (nat 1) =
     Some (Return (Inr [\<lparr>imgLinks = [''https://img/3a.jpg''], title = ''Ep 3'', minEp = 3, maxEp = 3\<rparr>]))"
  using hero_crawl hero_plan3 hero_viewer(5) by (simp add: getEpisodeBatches_def)

text \<open>
  The claim as first stated fails for the last batch: the only batch of the run, episode
  3, fails on an image that does not decode and writes no file; the row records
  \<open>last_chapter = 3\<close>, and episode 3 is in the range of the run that resumes.
\<close>

theorem failed_last_batch_in_next_range_counterexample:
  "GetWebtoon 3 (heroBrokenImage ''https://img/3a.jpg'') noFlags (heroOpts\<lparr>Opts.minEp := 3\<rparr>)
     freshMachine =
     Some (Return (),
       \<lparr>files = Map.empty,
        webtoon = [(''hero'', ''en'') \<mapsto>
          \<lparr>Row.url = heroList, last_chapter = 3, epsPerFile = 1, format = ''pdf''\<rparr>],
        fetched = [''https://img/3a.jpg''],
        comicCalls = 2\<rparr>) \<and>
   inRange (resumeOpts noFlags (heroOpts\<lparr>Opts.minEp := 3\<rparr>)
              \<lparr>Row.url = heroList, last_chapter = 3, epsPerFile = 1, format = ''pdf''\<rparr>) 3"
proof -
  let ?w = "heroBrokenImage ''https://img/3a.jpg''"
  let ?o = "heroOpts\<lparr>Opts.minEp := 3\<rparr>"
  have t: "getWebtoonTitle ?w ?o = Return (Inr (''hero'', ''en''))"
    by (rule hero_title_any) (simp_all add: hero_variant_facts hero_opts_fields)
  have g: "getEpisodeBatches 3 ?w (Opts.url ?o) (Opts.minEp ?o) (Opts.maxEp ?o)
             (nat (Opts.epsPerFile ?o)) =
     Some (Return (Inr [\<lparr>imgLinks = [''https://img/3a.jpg''], title = ''Ep 3'', minEp = 3, maxEp = 3\<rparr>]))"
    using sameSite_getEpisodeBatches [OF sameSite_hero(1)] hero_batches3
    by (simp add: hero_opts_fields)
  have r: "runBatches ?w noFlags ''hero'' ''en'' ?o
      [\<lparr>imgLinks = [''https://img/3a.jpg''], title = ''Ep 3'', minEp = 3, maxEp = 3\<rparr>] freshMachine =
    (Return (), \<lparr>files = Map.empty, webtoon = Map.empty, fetched = [''https://img/3a.jpg''],
                 comicCalls = 2\<rparr>)"
    by (simp add: exec_simps heroBrokenImage_def heroWorld_def offline_def)
  have "GetWebtoon 3 ?w noFlags ?o freshMachine =
     Some (Return (),
       \<lparr>files = Map.empty,
        webtoon = [(''hero'', ''en'') \<mapsto>
          \<lparr>Row.url = heroList, last_chapter = 3, epsPerFile = 1, format = ''pdf''\<rparr>],
        fetched = [''https://img/3a.jpg''],
        comicCalls = 2\<rparr>)"
    using t g r hero_variant_facts(3) [of "''https://img/3a.jpg''"]
    by (simp add: GetWebtoon_def hero_opts_fields)
  moreover have "inRange (resumeOpts noFlags ?o
              \<lparr>Row.url = heroList, last_chapter = 3, epsPerFile = 1, format = ''pdf''\<rparr>) 3"
    by (simp add: inRange_def resumeOpts_def noFlags_def hero_opts_fields)
  ultimately show ?thesis by (rule conjI)
qed

text \<open>
  C1, at an input where it fails.  Three batches of one episode each, one worker
  (\<^verbatim>\<open>-E 1\<close>).  When the request for the image of batch 2 fails, \<open>fetchImage\<close> ends the
  process: the run ends with exit status 1 after the file of batch 1, batch 3 never runs
  and its file is not written.  When instead the image of batch 2 does not decode,
  \<open>addImage\<close> fails, the panic is recovered, and batch 3 writes its file.
\<close>

theorem fetch_failure_ends_all_batches:
  "GetWebtoon 3 (heroLostImage ''https://img/2a.jpg'') noFlags heroOpts freshMachine =
     Some (Exited 1,
       \<lparr>files = [''webtoon/hero/en/Ep 1.pdf'' \<mapsto>
                   PDFComicFile [''JPEG https://img/1a.jpg'', ''JPEG https://img/1b.jpg'']],
        webtoon = Map.empty,
        fetched = [''https://img/1a.jpg'', ''https://img/1b.jpg'', ''https://img/2a.jpg''],
        comicCalls = 5\<rparr>) \<and>
   GetWebtoon 3 (heroBrokenImage ''https://img/2a.jpg'') noFlags heroOpts freshMachine =
     Some (Return (),
       \<lparr>files = [''webtoon/hero/en/Ep 1.pdf'' \<mapsto>
                   PDFComicFile [''JPEG https://img/1a.jpg'', ''JPEG https://img/1b.jpg''],
                 ''webtoon/hero/en/Ep 3.pdf'' \<mapsto> PDFComicFile [''JPEG https://img/3a.jpg'']],
        webtoon = [(''hero'', ''en'') \<mapsto>
          \<lparr>Row.url = heroList, last_chapter = 3, epsPerFile = 1, format = ''pdf''\<rparr>],
        fetched = [''https://img/1a.jpg'', ''https://img/1b.jpg'', ''https://img/2a.jpg'',
                   ''https://img/3a.jpg''],
        comicCalls = 9\<rparr>)"
proof
  let ?w = "heroLostImage ''https://img/2a.jpg''"
  have t: "getWebtoonTitle ?w heroOpts = Return (Inr (''hero'', ''en''))"
    by (rule hero_title_any) (simp_all add: hero_variant_facts hero_opts_fields)
  have g: "getEpisodeBatches 3 ?w (Opts.url heroOpts) (Opts.minEp heroOpts) (Opts.maxEp heroOpts)
             (nat (Opts.epsPerFile heroOpts)) = Some (Return (Inr heroBatches))"
    using sameSite_getEpisodeBatches [OF sameSite_hero(2)] hero_batches
    by (simp add: hero_opts_fields)
  have ne: "heroBatches \<noteq> []" by (simp add: heroBatches_def)
  show "GetWebtoon 3 ?w noFlags heroOpts freshMachine =
     Some (Exited 1,
       \<lparr>files = [''webtoon/hero/en/Ep 1.pdf'' \<mapsto>
                   PDFComicFile [''JPEG https://img/1a.jpg'', ''JPEG https://img/1b.jpg'']],
        webtoon = Map.empty,
        fetched = [''https://img/1a.jpg'', ''https://img/1b.jpg'', ''https://img/2a.jpg''],
        comicCalls = 5\<rparr>)"
    using t g ne lost2_run by (simp add: GetWebtoon_def)
next
  let ?w = "heroBrokenImage ''https://img/2a.jpg''"
  have t: "getWebtoonTitle ?w heroOpts = Return (Inr (''hero'', ''en''))"
    by (rule hero_title_any) (simp_all add: hero_variant_facts hero_opts_fields)
  have g: "getEpisodeBatches 3 ?w (Opts.url heroOpts) (Opts.minEp heroOpts) (Opts.maxEp heroOpts)
             (nat (Opts.epsPerFile heroOpts)) = Some (Return (Inr heroBatches))"
    using sameSite_getEpisodeBatches [OF sameSite_hero(1)] hero_batches
    by (simp add: hero_opts_fields)
  have ne: "heroBatches \<noteq> []" by (simp add: heroBatches_def)
  have l: "EpisodeBatch.maxEp (last heroBatches) = 3"
    by (simp add: heroBatches_def)
  show "GetWebtoon 3 ?w noFlags heroOpts freshMachine =
     Some (Return (),
       \<lparr>files = [''webtoon/hero/en/Ep 1.pdf'' \<mapsto>
                   PDFComicFile [''JPEG https://img/1a.jpg'', ''JPEG https://img/1b.jpg''],
                 ''webtoon/hero/en/Ep 3.pdf'' \<mapsto> PDFComicFile [''JPEG https://img/3a.jpg'']],
        webtoon = [(''hero'', ''en'') \<mapsto>
          \<lparr>Row.url = heroList, last_chapter = 3, epsPerFile = 1, format = ''pdf''\<rparr>],
        fetched = [''https://img/1a.jpg'', ''https://img/1b.jpg'', ''https://img/2a.jpg'',
                   ''https://img/3a.jpg''],
        comicCalls = 9\<rparr>)"
    using t g ne l broken2_run hero_variant_facts(3) [of "''https://img/2a.jpg''"]
    by (simp add: GetWebtoon_def hero_opts_fields)
qed

end
